theory Spec2Isabelle
  imports Main "HOL-Library.Multiset"
begin

section \<open>Storage: the schema of databaseLoader.load\<close>

text \<open>
  The three tables of \<^verbatim>\<open>src/communication/database.ts\<close> (lines 191--213), one record
  per row, one field per column. A nullable column is an \<open>option\<close>; \<open>name\<close> of
  \<open>rooms\<close> is \<open>not null\<close>. Timestamps are ticks of the storage clock. Identifiers are
  integers. The columns are \<open>integer\<close>, 32 bits wide: a read that compares such a column
  with a number outside that range fails (\<open>int4\<close>, below). The identity sequences and
  the ids a caller writes are not bounded in the model.
\<close>

type_synonym timestamp = nat

record users_row =
  u_id :: int
  u_created_at :: timestamp
  u_username :: "string option"
  u_avatar_url :: "string option"
  u_access_token :: "string option"

record rooms_row =
  r_id :: int
  r_created_at :: timestamp
  r_name :: string
  r_prompt :: "string option"

record messages_row =
  m_id :: int
  m_created_at :: timestamp
  m_message :: "string option"
  m_from :: "int option"
  m_room :: "int option"

text \<open>
  The state of storage: the rows of each table, and the next value of the identity
  sequences of \<open>rooms.id\<close> and \<open>messages.id\<close> (\<open>generated by default as identity\<close>;
  \<open>users.id\<close> is always supplied by the caller, so its sequence is never read).
\<close>

record storage =
  users :: "users_row list"
  rooms :: "rooms_row list"
  messages :: "messages_row list"
  rooms_id_seq :: int
  messages_id_seq :: int

text \<open>The row of the view \<open>rooms_with_activity\<close> (lines 214--223).\<close>

record rooms_with_activity_row =
  v_id :: int
  v_name :: string
  v_last_message_at :: "timestamp option"

text \<open>
  A row of \<open>messages\<close> with the resource embedded by \<open>from(username,avatar_url)\<close>:
  the \<open>users\<close> row the foreign key \<open>from\<close> points to, absent when there is none.
\<close>

record messages_embed =
  e_message :: "string option"
  e_from :: "users_row option"
  e_created_at :: timestamp

section \<open>The storage client\<close>

text \<open>
  What a call of the client resolves to: \<open>{ data, error }\<close>. The error carries the
  \<open>message\<close> and the \<open>code\<close> the methods read.
\<close>

record PostgrestError =
  message :: string
  code :: string

record 'a PostgrestResponse =
  data :: "'a option"
  error :: "PostgrestError option"

text \<open>
  What storage does not decide is an input of each call. \<open>fault\<close>: the call fails
  with this error before it reaches the tables (transport, permissions, ...). \<open>now\<close>:
  the clock value a write stamps on \<open>created_at\<close>. \<open>rank\<close>: the order in which a
  read without \<open>order by\<close> returns its rows; SQL leaves it open, here the rows come
  sorted by the rank of their primary key, in table order where ranks are equal.
\<close>

record env =
  fault :: "PostgrestError option"

record write_env = env +
  now :: timestamp

record read_env = env +
  rank :: "int \<Rightarrow> nat"

definition arrange :: "(int \<Rightarrow> nat) \<Rightarrow> ('a \<Rightarrow> int) \<Rightarrow> 'a list \<Rightarrow> 'a list" where
  "arrange rk key xs = sort_key (\<lambda>x. rk (key x)) xs"

definition failed :: "PostgrestError \<Rightarrow> 'a PostgrestResponse" where
  "failed e = \<lparr>data = None, error = Some e\<rparr>"

definition succeeded :: "'a option \<Rightarrow> 'a PostgrestResponse" where
  "succeeded d = \<lparr>data = d, error = None\<rparr>"

definition unique_violation :: "string \<Rightarrow> PostgrestError" where
  "unique_violation c =
     \<lparr>message = ''duplicate key value violates unique constraint '' @ c, code = ''23505''\<rparr>"

definition foreign_key_violation :: "string \<Rightarrow> PostgrestError" where
  "foreign_key_violation c =
     \<lparr>message = ''insert or update on table messages violates foreign key constraint '' @ c,
      code = ''23503''\<rparr>"

definition int4 :: "int \<Rightarrow> bool" where
  \<comment> \<open>the values of the column type \<open>integer\<close>\<close>
  "int4 i \<longleftrightarrow> - 2147483648 \<le> i \<and> i \<le> 2147483647"

definition out_of_range :: PostgrestError where
  "out_of_range = \<lparr>message = ''value is out of range for type integer'', code = ''22003''\<rparr>"

definition no_single_row :: PostgrestError where
  "no_single_row =
     \<lparr>message = ''JSON object requested, multiple (or no) rows returned'', code = ''PGRST116''\<rparr>"

text \<open>
  \<open>from("users").upsert([{id, username, avatar_url, access_token}], {returning: "minimal"})\<close>:
  insert, or on a conflict on the primary key update the four columns. \<open>username\<close> is
  \<open>unique\<close>: a non-null username held by another row is a unique violation.
\<close>

definition users_upsert ::
  "write_env \<Rightarrow> int \<Rightarrow> string option \<Rightarrow> string option \<Rightarrow> string option \<Rightarrow> storage
     \<Rightarrow> unit PostgrestResponse \<times> storage" where
  "users_upsert w i un av tok db =
     (case fault w of
        Some e \<Rightarrow> (failed e, db)
      | None \<Rightarrow>
          if un \<noteq> None \<and> list_ex (\<lambda>u. u_id u \<noteq> i \<and> u_username u = un) (users db)
          then (failed (unique_violation ''users_username_key''), db)
          else if i \<in> set (map u_id (users db))
          then (succeeded None,
                db\<lparr>users := map (\<lambda>u. if u_id u = i
                                      then u\<lparr>u_username := un, u_avatar_url := av,
                                             u_access_token := tok\<rparr>
                                      else u) (users db)\<rparr>)
          else (succeeded None,
                db\<lparr>users := users db @
                   [\<lparr>u_id = i, u_created_at = now w, u_username = un, u_avatar_url = av,
                     u_access_token = tok\<rparr>]\<rparr>))"

text \<open>\<open>from("users").select("id,username,avatar_url").eq("access_token", accessToken)\<close>\<close>

definition users_select_eq_access_token ::
  "read_env \<Rightarrow> string \<Rightarrow> storage \<Rightarrow> users_row list PostgrestResponse" where
  "users_select_eq_access_token r tok db =
     (case fault r of
        Some e \<Rightarrow> failed e
      | None \<Rightarrow>
          succeeded (Some (arrange (rank r) u_id
            (filter (\<lambda>u. u_access_token u = Some tok) (users db)))))"

text \<open>
  The view: rooms left-joined to their messages, one group per room,
  \<open>max(messages.created_at)\<close> (null for a room with no message),
  \<open>order by last_message_at desc nulls last\<close>.
\<close>

definition last_message_at :: "storage \<Rightarrow> int \<Rightarrow> timestamp option" where
  "last_message_at db i =
     (case map m_created_at (filter (\<lambda>m. m_room m = Some i) (messages db)) of
        [] \<Rightarrow> None
      | t # ts \<Rightarrow> Some (fold max ts t))"

definition desc_nulls_last :: "timestamp option \<Rightarrow> int" where
  \<comment> \<open>the sort key of \<open>desc nulls last\<close>: smaller keys come first\<close>
  "desc_nulls_last t = (case t of None \<Rightarrow> 1 | Some x \<Rightarrow> - int x)"

definition rooms_with_activity :: "(int \<Rightarrow> nat) \<Rightarrow> storage \<Rightarrow> rooms_with_activity_row list" where
  "rooms_with_activity rk db =
     sort_key (\<lambda>v. desc_nulls_last (v_last_message_at v))
       (map (\<lambda>x. \<lparr>v_id = r_id x, v_name = r_name x,
                   v_last_message_at = last_message_at db (r_id x)\<rparr>)
          (arrange rk r_id (rooms db)))"

text \<open>\<open>from("rooms_with_activity").select("id,name,last_message_at")\<close>\<close>

definition rooms_with_activity_select ::
  "read_env \<Rightarrow> storage \<Rightarrow> rooms_with_activity_row list PostgrestResponse" where
  "rooms_with_activity_select r db =
     (case fault r of
        Some e \<Rightarrow> failed e
      | None \<Rightarrow> succeeded (Some (rooms_with_activity (rank r) db)))"

text \<open>
  \<open>from("rooms").select(...).eq("id", roomId)\<close>: the number is compared with the
  \<open>integer\<close> column \<open>id\<close>, which fails for a number out of its range.
\<close>

definition rooms_select_eq_id ::
  "read_env \<Rightarrow> int \<Rightarrow> storage \<Rightarrow> rooms_row list PostgrestResponse" where
  "rooms_select_eq_id r i db =
     (case fault r of
        Some e \<Rightarrow> failed e
      | None \<Rightarrow>
          if int4 i
          then succeeded (Some (arrange (rank r) r_id (filter (\<lambda>x. r_id x = i) (rooms db))))
          else failed out_of_range)"

text \<open>\<open>.single()\<close>: the one row of the result, an error unless there is exactly one.\<close>

definition single :: "'a list PostgrestResponse \<Rightarrow> 'a PostgrestResponse" where
  "single resp =
     (case error resp of
        Some e \<Rightarrow> failed e
      | None \<Rightarrow>
          (case data resp of
             Some [x] \<Rightarrow> succeeded (Some x)
           | _ \<Rightarrow> failed no_single_row))"

text \<open>
  \<open>from("rooms").insert([{name, prompt}], {upsert: false, returning: "representation"})\<close>:
  the identity sequence gives the id (and moves on even when the insert fails), the
  primary key and \<open>name\<close> are unique.
\<close>

definition rooms_insert ::
  "write_env \<Rightarrow> string \<Rightarrow> string option \<Rightarrow> storage
     \<Rightarrow> rooms_row list PostgrestResponse \<times> storage" where
  "rooms_insert w n p db =
     (case fault w of
        Some e \<Rightarrow> (failed e, db)
      | None \<Rightarrow>
          let i = rooms_id_seq db;
              db' = db\<lparr>rooms_id_seq := i + 1\<rparr>;
              row = \<lparr>r_id = i, r_created_at = now w, r_name = n, r_prompt = p\<rparr>
          in if i \<in> set (map r_id (rooms db))
             then (failed (unique_violation ''rooms_pkey''), db')
             else if n \<in> set (map r_name (rooms db))
             then (failed (unique_violation ''rooms_name_key''), db')
             else (succeeded (Some [row]), db'\<lparr>rooms := rooms db @ [row]\<rparr>))"

text \<open>\<open>from("rooms").select("id").eq("name", name)\<close>\<close>

definition rooms_select_eq_name ::
  "read_env \<Rightarrow> string \<Rightarrow> storage \<Rightarrow> rooms_row list PostgrestResponse" where
  "rooms_select_eq_name r n db =
     (case fault r of
        Some e \<Rightarrow> failed e
      | None \<Rightarrow> succeeded (Some (arrange (rank r) r_id (filter (\<lambda>x. r_name x = n) (rooms db)))))"

text \<open>
  \<open>from("messages").insert([{message, room, from}], {returning: "minimal"})\<close>:
  \<open>from\<close> references \<open>users (id)\<close> and \<open>room\<close> references \<open>rooms (id)\<close>.
\<close>

definition messages_insert ::
  "write_env \<Rightarrow> string \<Rightarrow> int \<Rightarrow> int \<Rightarrow> storage \<Rightarrow> unit PostgrestResponse \<times> storage" where
  "messages_insert w txt room_v from_v db =
     (case fault w of
        Some e \<Rightarrow> (failed e, db)
      | None \<Rightarrow>
          let i = messages_id_seq db;
              db' = db\<lparr>messages_id_seq := i + 1\<rparr>;
              row = \<lparr>m_id = i, m_created_at = now w, m_message = Some txt,
                     m_from = Some from_v, m_room = Some room_v\<rparr>
          in if i \<in> set (map m_id (messages db))
             then (failed (unique_violation ''messages_pkey''), db')
             else if from_v \<notin> set (map u_id (users db))
             then (failed (foreign_key_violation ''messages_from_fkey''), db')
             else if room_v \<notin> set (map r_id (rooms db))
             then (failed (foreign_key_violation ''messages_room_fkey''), db')
             else (succeeded None, db'\<lparr>messages := messages db @ [row]\<rparr>))"

text \<open>
  \<open>from("messages").select("message,from(username,avatar_url),created_at").eq("room", roomId)\<close>:
  the number is compared with the \<open>integer\<close> column \<open>room\<close>.
\<close>

definition embed_from :: "storage \<Rightarrow> messages_row \<Rightarrow> messages_embed" where
  "embed_from db m =
     \<lparr>e_message = m_message m,
      e_from = (case m_from m of
                  None \<Rightarrow> None
                | Some i \<Rightarrow> find (\<lambda>u. u_id u = i) (users db)),
      e_created_at = m_created_at m\<rparr>"

definition messages_select_eq_room ::
  "read_env \<Rightarrow> int \<Rightarrow> storage \<Rightarrow> messages_embed list PostgrestResponse" where
  "messages_select_eq_room r i db =
     (case fault r of
        Some e \<Rightarrow> failed e
      | None \<Rightarrow>
          if int4 i
          then succeeded (Some (map (embed_from db)
                 (arrange (rank r) m_id (filter (\<lambda>m. m_room m = Some i) (messages db)))))
          else failed out_of_range)"

section \<open>The Database class\<close>

text \<open>
  What a method throws: \<open>new Error(message)\<close>, or the \<open>TypeError\<close> of reading a
  property of \<open>undefined\<close> or \<open>null\<close>. A method that reads storage returns
  \<open>exn + result\<close>; a method that writes returns the new state of storage as well.
\<close>

datatype exn = Error string | TypeError

text \<open>
  \<open>DatabaseUser\<close> (lines 6--10). The values read back from the nullable columns
  \<open>username\<close> and \<open>avatar_url\<close> can be null, so both fields are options.
  \<open>DatabaseUser & { accessToken: string }\<close> is the extension by one field.
\<close>

record DatabaseUser =
  userId :: int
  userName :: "string option"
  avatarUrl :: "string option"

record DatabaseUserWithToken = DatabaseUser +
  accessToken :: string

text \<open>insertUser (lines 24--39)\<close>

definition insertUser ::
  "write_env \<Rightarrow> DatabaseUserWithToken \<Rightarrow> storage \<Rightarrow> (exn + unit) \<times> storage" where
  "insertUser w user db =
     (let (resp, db') = users_upsert w (userId user) (userName user) (avatarUrl user)
                          (Some (accessToken user)) db
      in case error resp of
           Some e \<Rightarrow> (Inl (Error (message e)), db')
         | None \<Rightarrow> (Inr (), db'))"

text \<open>getUserByAccessToken (lines 51--69)\<close>

definition getUserByAccessToken ::
  "read_env \<Rightarrow> string \<Rightarrow> storage \<Rightarrow> exn + DatabaseUser option" where
  "getUserByAccessToken r tok db =
     (let resp = users_select_eq_access_token r tok db
      in case error resp of
           Some e \<Rightarrow> Inl (Error (message e))
         | None \<Rightarrow>
             (case data resp of
                None \<Rightarrow> Inl TypeError
              | Some [] \<Rightarrow> Inr None
              | Some (u # _) \<Rightarrow>
                  Inr (Some \<lparr>userId = u_id u, userName = u_username u,
                             avatarUrl = u_avatar_url u\<rparr>)))"

text \<open>getUserByAccessTokenOrThrow (lines 41--49)\<close>

definition getUserByAccessTokenOrThrow ::
  "read_env \<Rightarrow> string \<Rightarrow> storage \<Rightarrow> exn + DatabaseUser" where
  "getUserByAccessTokenOrThrow r tok db =
     (case getUserByAccessToken r tok db of
        Inl e \<Rightarrow> Inl e
      | Inr None \<Rightarrow> Inl (Error ''Could not find user with access token.'')
      | Inr (Some user) \<Rightarrow> Inr user)"

text \<open>getRooms (lines 71--83); the elements of its result are \<open>{roomId, name, lastMessageAt}\<close>.\<close>

record RoomActivity =
  roomId :: int
  name :: string
  lastMessageAt :: "timestamp option"

definition getRooms :: "read_env \<Rightarrow> storage \<Rightarrow> exn + RoomActivity list" where
  "getRooms r db =
     (let resp = rooms_with_activity_select r db
      in case error resp of
           Some e \<Rightarrow> Inl (Error (message e))
         | None \<Rightarrow>
             (case data resp of
                None \<Rightarrow> Inl TypeError
              | Some ds \<Rightarrow>
                  Inr (map (\<lambda>d. \<lparr>roomId = v_id d, name = v_name d,
                                  lastMessageAt = v_last_message_at d\<rparr>) ds)))"

text \<open>getRoomName (lines 85--94): \<open>data[0].name\<close> throws when there is no first row.\<close>

definition getRoomName :: "read_env \<Rightarrow> int \<Rightarrow> storage \<Rightarrow> exn + string" where
  "getRoomName r i db =
     (let resp = rooms_select_eq_id r i db
      in case error resp of
           Some e \<Rightarrow> Inl (Error (message e))
         | None \<Rightarrow>
             (case data resp of
                Some (x # _) \<Rightarrow> Inr (r_name x)
              | _ \<Rightarrow> Inl TypeError))"

text \<open>
  getRoomNamePrompt (lines 95--107): the result \<open>{ name, prompt }\<close> is a pair.
  Destructuring a null \<open>data\<close> throws (the default \<open>[]\<close> stands in for
  \<open>undefined\<close> only).
\<close>

definition getRoomNamePrompt ::
  "read_env \<Rightarrow> int \<Rightarrow> storage \<Rightarrow> exn + string \<times> string option" where
  "getRoomNamePrompt r i db =
     (let resp = single (rooms_select_eq_id r i db)
      in case error resp of
           Some e \<Rightarrow> Inl (Error (message e))
         | None \<Rightarrow>
             (case data resp of
                None \<Rightarrow> Inl TypeError
              | Some x \<Rightarrow> Inr (r_name x, r_prompt x)))"

text \<open>getRoomPrompt (lines 108--117): \<open>data?.prompt\<close> is absent when \<open>data\<close> is.\<close>

definition getRoomPrompt :: "read_env \<Rightarrow> int \<Rightarrow> storage \<Rightarrow> exn + string option" where
  "getRoomPrompt r i db =
     (let resp = single (rooms_select_eq_id r i db)
      in case error resp of
           Some e \<Rightarrow> Inl (Error (message e))
         | None \<Rightarrow>
             (case data resp of
                None \<Rightarrow> Inr None
              | Some x \<Rightarrow> Inr (r_prompt x)))"

text \<open>
  ensureRoom (lines 120--142). \<open>ensureRoom_get\<close> is its second half, from the second
  \<open>await\<close> on (lines 131--141): the read by name, \<open>undefined\<close> (here \<open>None\<close>)
  when it finds no row.
\<close>

definition ensureRoom_get :: "read_env \<Rightarrow> string \<Rightarrow> storage \<Rightarrow> exn + int option" where
  "ensureRoom_get r n db =
     (let get = rooms_select_eq_name r n db
      in case error get of
           Some e \<Rightarrow> Inl (Error (message e))
         | None \<Rightarrow>
             (case data get of
                Some (x # _) \<Rightarrow> Inr (Some (r_id x))
              | _ \<Rightarrow> Inr None))"

definition ensureRoom ::
  "write_env \<Rightarrow> read_env \<Rightarrow> string \<Rightarrow> string \<Rightarrow> storage \<Rightarrow> (exn + int option) \<times> storage" where
  "ensureRoom w r n p db =
     (let (ins, db') = rooms_insert w n (Some p) db
      in case error ins of
           None \<Rightarrow> (ensureRoom_get r n db', db')
         | Some e \<Rightarrow>
             if code e \<noteq> ''23505''
             then (Inl (Error (message e)), db')
             else (ensureRoom_get r n db', db'))"

text \<open>
  insertMessage (lines 143--158), of \<open>{ text, roomId, userId }\<close>: the response of the
  insert is awaited and dropped.
\<close>

definition insertMessage ::
  "write_env \<Rightarrow> string \<Rightarrow> int \<Rightarrow> int \<Rightarrow> storage \<Rightarrow> (exn + unit) \<times> storage" where
  "insertMessage w txt room_v user_v db =
     (let (resp, db') = messages_insert w txt room_v user_v db
      in (Inr (), db'))"

text \<open>
  getRoomMessages (lines 160--176). \<open>MessageView\<close> is \<open>{message, from: {name, avatarUrl},
  createdAt}\<close>; \<open>m.from.username\<close> throws on a row with no embedded user, and the first
  throw ends \<open>data.map\<close>.
\<close>

record MessageFrom =
  from_name :: "string option"
  from_avatarUrl :: "string option"

record MessageView =
  mv_message :: "string option"
  mv_from :: MessageFrom
  createdAt :: timestamp

definition to_MessageView :: "messages_embed \<Rightarrow> exn + MessageView" where
  "to_MessageView m =
     (case e_from m of
        None \<Rightarrow> Inl TypeError
      | Some u \<Rightarrow>
          Inr \<lparr>mv_message = e_message m,
               mv_from = \<lparr>from_name = u_username u, from_avatarUrl = u_avatar_url u\<rparr>,
               createdAt = e_created_at m\<rparr>)"

fun map_throwing :: "('a \<Rightarrow> exn + 'b) \<Rightarrow> 'a list \<Rightarrow> exn + 'b list" where
  "map_throwing f [] = Inr []"
| "map_throwing f (x # xs) =
     (case f x of
        Inl e \<Rightarrow> Inl e
      | Inr y \<Rightarrow> (case map_throwing f xs of Inl e \<Rightarrow> Inl e | Inr ys \<Rightarrow> Inr (y # ys)))"

definition getRoomMessages :: "read_env \<Rightarrow> int \<Rightarrow> storage \<Rightarrow> exn + MessageView list" where
  "getRoomMessages r i db =
     (let resp = messages_select_eq_room r i db
      in case error resp of
           Some e \<Rightarrow> Inl (Error (message e))
         | None \<Rightarrow>
             (case data resp of
                None \<Rightarrow> Inl TypeError
              | Some ms \<Rightarrow> map_throwing to_MessageView ms))"

text \<open>
  databaseLoader.load (lines 179--239) on storage that has no table yet, or has the
  tables already (\<open>create table if not exists\<close>): the seed row \<open>(0, 'Lobby')\<close> is
  inserted \<open>on conflict(id) do nothing\<close>; the name is unique all the same.
\<close>

definition no_tables :: storage where
  "no_tables = \<lparr>users = [], rooms = [], messages = [], rooms_id_seq = 1, messages_id_seq = 1\<rparr>"

definition load :: "timestamp \<Rightarrow> storage option \<Rightarrow> exn + storage" where
  "load t existing =
     (let db = (case existing of None \<Rightarrow> no_tables | Some s \<Rightarrow> s)
      in if 0 \<in> set (map r_id (rooms db)) then Inr db
         else if ''Lobby'' \<in> set (map r_name (rooms db))
         then Inl (Error (message (unique_violation ''rooms_name_key'')))
         else Inr (db\<lparr>rooms := rooms db @
                     [\<lparr>r_id = 0, r_created_at = t, r_name = ''Lobby'', r_prompt = None\<rparr>]\<rparr>))"

section \<open>The completion handler\<close>

text \<open>
  \<open>handler.GET\<close> of \<^verbatim>\<open>src/unnamed/part_000\<close>. Its two arguments are the request, here
  by the text of its body (what \<open>req.text()\<close> of the commented-out line 6 would read),
  and the context of the route, here by its parameters. A completion and its request are
  made of messages \<open>{role, content}\<close>; the records leave the type of the content open,
  the handler uses them with strings.
\<close>

record Request =
  req_text :: string

record HandlerContext =
  params :: "(string \<times> string) list"

record 'c ChatMessage =
  role :: string
  content :: 'c

record 'c ChatCompletionRequest =
  model :: string
  request_messages :: "'c ChatMessage list"

record 'c Choice =
  choice_message :: "'c ChatMessage"

record 'c ChatCompletion =
  choices :: "'c Choice list"

record 'c Response =
  body :: "'c option"
  status :: nat

text \<open>
  The two constants of lines 15 and 17. The system text is Arabic; a string is a list of
  bytes, here the bytes of its UTF-8 encoding (203 characters, 371 bytes).
\<close>

definition SystemRoleContenet :: string where
  "SystemRoleContenet =
     [CHR 0xD8, CHR 0xB4, CHR 0xD8, CHR 0xA7, CHR 0xD8, CHR 0xAA, CHR 0x20, CHR 0xD8, CHR 0xAC,
      CHR 0xD9, CHR 0x8A, CHR 0x20, CHR 0xD8, CHR 0xA8, CHR 0xD9, CHR 0x8A, CHR 0x20, CHR 0xD8,
      CHR 0xAA, CHR 0xD9, CHR 0x8A, CHR 0x20, CHR 0x20, CHR 0xD8, CHR 0xA7, CHR 0xD9, CHR 0x86,
      CHR 0xD8, CHR 0xAA, CHR 0x20, CHR 0xD8, CHR 0xAA, CHR 0xD9, CHR 0x81, CHR 0xD9, CHR 0x87,
      CHR 0xD9, CHR 0x85, CHR 0x20, CHR 0xD8, CHR 0xAC, CHR 0xD9, CHR 0x85, CHR 0xD9, CHR 0x8A,
      CHR 0xD8, CHR 0xB9, CHR 0x20, CHR 0xD8, CHR 0xA7, CHR 0xD9, CHR 0x84, CHR 0xD9, CHR 0x84,
      CHR 0xD8, CHR 0xBA, CHR 0xD8, CHR 0xA7, CHR 0xD8, CHR 0xAA, CHR 0xD9, CHR 0x88, CHR 0xD9,
      CHR 0x81, CHR 0xD9, CHR 0x8A, CHR 0x20, CHR 0xD8, CHR 0xAC, CHR 0xD9, CHR 0x85, CHR 0xD9,
      CHR 0x8A, CHR 0xD8, CHR 0xB9, CHR 0x20, CHR 0xD8, CHR 0xA7, CHR 0xD9, CHR 0x84, CHR 0xD9,
      CHR 0x85, CHR 0xD8, CHR 0xAC, CHR 0xD8, CHR 0xA7, CHR 0xD9, CHR 0x84, CHR 0xD8, CHR 0xA7,
      CHR 0xD8, CHR 0xAA, CHR 0xD8, CHR 0xA7, CHR 0xD9, CHR 0x8A, CHR 0x20, CHR 0xD9, CHR 0x86,
      CHR 0xD8, CHR 0xB5, CHR 0x20, CHR 0xD8, CHR 0xA7, CHR 0xD8, CHR 0xB9, CHR 0xD8, CHR 0xB7,
      CHR 0xD9, CHR 0x8A, CHR 0xD8, CHR 0xAA, CHR 0xD9, CHR 0x87, CHR 0x20, CHR 0xD9, CHR 0x84,
      CHR 0xD9, CHR 0x83, CHR 0x20, CHR 0xD8, CHR 0xA7, CHR 0xD9, CHR 0x81, CHR 0xD9, CHR 0x87,
      CHR 0xD9, CHR 0x85, CHR 0xD9, CHR 0x87, CHR 0x20, CHR 0xD9, CHR 0x88, CHR 0xD8, CHR 0xB9,
      CHR 0xD8, CHR 0xA7, CHR 0xD9, CHR 0x84, CHR 0xD8, CHR 0xAC, CHR 0xD9, CHR 0x87, CHR 0x20,
      CHR 0xD9, CHR 0x88, CHR 0xD9, CHR 0x88, CHR 0xD8, CHR 0xB1, CHR 0xD8, CHR 0xAF, CHR 0x20,
      CHR 0xD8, CHR 0xB9, CHR 0xD9, CHR 0x84, CHR 0xD9, CHR 0x89, CHR 0x20, CHR 0xD8, CHR 0xA7,
      CHR 0xD9, CHR 0x8A, CHR 0x20, CHR 0xD8, CHR 0xA5, CHR 0xD8, CHR 0xB3, CHR 0xD8, CHR 0xAA,
      CHR 0xD9, CHR 0x81, CHR 0xD8, CHR 0xB3, CHR 0xD8, CHR 0xA7, CHR 0xD8, CHR 0xB1, CHR 0x20,
      CHR 0xD9, CHR 0x84, CHR 0xD9, CHR 0x83, CHR 0x20, CHR 0xD8, CHR 0xB1, CHR 0xD8, CHR 0xAF,
      CHR 0x20, CHR 0xD8, CHR 0xA8, CHR 0xD8, CHR 0xA7, CHR 0xD9, CHR 0x84, CHR 0xD9, CHR 0x84,
      CHR 0xD9, CHR 0x87, CHR 0xD8, CHR 0xAC, CHR 0xD8, CHR 0xA9, CHR 0x20, CHR 0xD8, CHR 0xA7,
      CHR 0xD9, CHR 0x84, CHR 0xD9, CHR 0x85, CHR 0xD8, CHR 0xBA, CHR 0xD8, CHR 0xB1, CHR 0xD8,
      CHR 0xA8, CHR 0xD9, CHR 0x8A, CHR 0xD8, CHR 0xA9, CHR 0x20, CHR 0xD9, CHR 0x8A, CHR 0xD9,
      CHR 0x85, CHR 0xD9, CHR 0x83, CHR 0xD9, CHR 0x86, CHR 0xD9, CHR 0x83, CHR 0x20, CHR 0xD9,
      CHR 0x83, CHR 0xD8, CHR 0xAA, CHR 0xD8, CHR 0xA7, CHR 0xD8, CHR 0xA8, CHR 0xD8, CHR 0xA9,
      CHR 0x20, CHR 0xD9, CHR 0x83, CHR 0xD9, CHR 0x84, CHR 0xD9, CHR 0x85, CHR 0xD8, CHR 0xA7,
      CHR 0xD8, CHR 0xAA, CHR 0x20, CHR 0xD8, CHR 0xAA, CHR 0xD9, CHR 0x82, CHR 0xD9, CHR 0x86,
      CHR 0xD9, CHR 0x8A, CHR 0xD8, CHR 0xA9, CHR 0x20, CHR 0xD9, CHR 0x84, CHR 0xD9, CHR 0x83,
      CHR 0xD9, CHR 0x86, CHR 0x20, CHR 0xD8, CHR 0xA7, CHR 0xD9, CHR 0x83, CHR 0xD8, CHR 0xAA,
      CHR 0xD8, CHR 0xA8, CHR 0xD9, CHR 0x87, CHR 0xD8, CHR 0xA7, CHR 0x20, CHR 0xD8, CHR 0xA8,
      CHR 0xD8, CHR 0xA7, CHR 0xD9, CHR 0x84, CHR 0xD8, CHR 0xAF, CHR 0xD8, CHR 0xA7, CHR 0xD8,
      CHR 0xB1, CHR 0xD8, CHR 0xAC, CHR 0xD8, CHR 0xA9, CHR 0x20, CHR 0xD8, CHR 0xA7, CHR 0xD9,
      CHR 0x84, CHR 0xD9, CHR 0x85, CHR 0xD8, CHR 0xBA, CHR 0xD8, CHR 0xB1, CHR 0xD8, CHR 0xA8,
      CHR 0xD9, CHR 0x8A, CHR 0xD8, CHR 0xA9, CHR 0xD8, CHR 0x8C, CHR 0x20, CHR 0xD8, CHR 0xB1,
      CHR 0xD9, CHR 0x83, CHR 0xD8, CHR 0xB2, CHR 0x20, CHR 0xD8, CHR 0xA7, CHR 0xD9, CHR 0x84,
      CHR 0xD8, CHR 0xB1, CHR 0xD8, CHR 0xAF, CHR 0x20, CHR 0xD8, CHR 0xA8, CHR 0xD8, CHR 0xA7,
      CHR 0xD9, CHR 0x84, CHR 0xD8, CHR 0xAF, CHR 0xD8, CHR 0xA7, CHR 0xD8, CHR 0xB1, CHR 0xD8,
      CHR 0xAC, CHR 0xD8, CHR 0xA9, CHR 0x20, CHR 0xD8, CHR 0xA7, CHR 0xD9, CHR 0x84, CHR 0xD9,
      CHR 0x85, CHR 0xD8, CHR 0xBA, CHR 0xD8, CHR 0xB1, CHR 0xD8, CHR 0xA8, CHR 0xD9, CHR 0x8A,
      CHR 0xD8, CHR 0xA9]"

definition userContent :: string where
  "userContent = ''jock for animal dog''"

text \<open>The argument of \<open>openAI.createChatCompletion\<close> (lines 18--25).\<close>

definition GET_request :: "string ChatCompletionRequest" where
  "GET_request =
     \<lparr>model = ''gpt-3.5-turbo'',
      request_messages = [\<lparr>role = ''system'', content = SystemRoleContenet\<rparr>,
                          \<lparr>role = ''user'', content = userContent\<rparr>]\<rparr>"

text \<open>
  Lines 29--31: \<open>chatCompletion?.choices\<close> then \<open>choices[0]?.message.content\<close>.
  Indexing the \<open>undefined\<close> choices of an absent completion throws; an absent first
  choice gives \<open>undefined\<close>.
\<close>

definition GET_text :: "'c ChatCompletion option \<Rightarrow> exn + 'c option" where
  "GET_text chatCompletion =
     (case chatCompletion of
        None \<Rightarrow> Inl TypeError
      | Some c \<Rightarrow>
          (case choices c of
             [] \<Rightarrow> Inr None
           | ch # _ \<Rightarrow> Inr (Some (content (choice_message ch)))))"

text \<open>
  The handler \<open>GET(_req, _ctx)\<close>: the provider is the function \<open>createChatCompletion\<close>,
  its rejection an exception of the handler. Neither argument is read.
\<close>

definition GET ::
  "Request \<Rightarrow> HandlerContext
     \<Rightarrow> (string ChatCompletionRequest \<Rightarrow> exn + string ChatCompletion option)
     \<Rightarrow> exn + string Response" where
  "GET req ctx createChatCompletion =
     (case createChatCompletion GET_request of
        Inl e \<Rightarrow> Inl e
      | Inr chatCompletion \<Rightarrow>
          (case GET_text chatCompletion of
             Inl e \<Rightarrow> Inl e
           | Inr t \<Rightarrow> Inr \<lparr>body = t, status = 200\<rparr>))"

section \<open>Executions and the constraints of the schema\<close>

text \<open>
  The constraints the schema declares, as a predicate on the state of storage: the
  primary keys, \<open>username unique\<close> (nulls are not compared), \<open>name unique\<close>, the two
  foreign keys of \<open>messages\<close>, and the identity sequences ahead of the ids in use (they
  start at 1). Its last conjunct is not of the schema: every row of \<open>messages\<close> names
  its author, as every row written by \<open>messages_insert\<close>, the only writer, does.
\<close>

definition wf_storage :: "storage \<Rightarrow> bool" where
  "wf_storage db \<longleftrightarrow>
     distinct (map u_id (users db)) \<and>
     distinct (List.map_filter u_username (users db)) \<and>
     distinct (map r_id (rooms db)) \<and>
     distinct (map r_name (rooms db)) \<and>
     1 \<le> rooms_id_seq db \<and>
     list_all (\<lambda>x. r_id x < rooms_id_seq db) (rooms db) \<and>
     distinct (map m_id (messages db)) \<and>
     list_all (\<lambda>m. m_id m < messages_id_seq db) (messages db) \<and>
     set (List.map_filter m_room (messages db)) \<subseteq> set (map r_id (rooms db)) \<and>
     set (List.map_filter m_from (messages db)) \<subseteq> set (map u_id (users db)) \<and>
     list_all (\<lambda>m. m_from m \<noteq> None) (messages db)"

text \<open>
  The statements that change storage, whoever issues them. An execution is a list of
  them: storage runs one statement at a time, and the calls of concurrent requests
  interleave at their \<open>await\<close>s, statement by statement.
\<close>

datatype statement =
    Users_upsert write_env int "string option" "string option" "string option"
  | Rooms_insert write_env string "string option"
  | Messages_insert write_env string int int

fun run_statement :: "statement \<Rightarrow> storage \<Rightarrow> storage" where
  "run_statement (Users_upsert w i un av tok) db = snd (users_upsert w i un av tok db)"
| "run_statement (Rooms_insert w n p) db = snd (rooms_insert w n p db)"
| "run_statement (Messages_insert w txt room_v from_v) db = snd (messages_insert w txt room_v from_v db)"

definition run :: "statement list \<Rightarrow> storage \<Rightarrow> storage" where
  "run ws db = fold run_statement ws db"

text \<open>
  ensureRoom in an execution: its two \<open>await\<close>s are two statements, and \<open>between\<close>
  are the statements that other requests run after the insert of this call and before
  its read. The body is that of \<open>ensureRoom\<close>, with those statements run where the
  call waits; with none of them it is \<open>ensureRoom\<close>.
\<close>

definition ensureRoom_interleaved ::
  "write_env \<Rightarrow> statement list \<Rightarrow> read_env \<Rightarrow> string \<Rightarrow> string \<Rightarrow> storage
     \<Rightarrow> (exn + int option) \<times> storage" where
  "ensureRoom_interleaved w between r n p db =
     (let (ins, db') = rooms_insert w n (Some p) db
      in case error ins of
           None \<Rightarrow> (ensureRoom_get r n (run between db'), run between db')
         | Some e \<Rightarrow>
             if code e \<noteq> ''23505''
             then (Inl (Error (message e)), db')
             else (ensureRoom_get r n (run between db'), run between db'))"

text \<open>
  A sequence of insertMessage calls targeting one room, each with its text and its
  author; and what getRoomMessages shows of the author of a message.
\<close>

fun insertMessages :: "(write_env \<times> string \<times> int) list \<Rightarrow> int \<Rightarrow> storage \<Rightarrow> storage" where
  "insertMessages [] room_v db = db"
| "insertMessages ((w, txt, user_v) # calls) room_v db =
     insertMessages calls room_v (snd (insertMessage w txt room_v user_v db))"

definition author :: "storage \<Rightarrow> int \<Rightarrow> MessageFrom" where
  "author db i =
     (case find (\<lambda>u. u_id u = i) (users db) of
        None \<Rightarrow> \<lparr>from_name = None, from_avatarUrl = None\<rparr>
      | Some u \<Rightarrow> \<lparr>from_name = u_username u, from_avatarUrl = u_avatar_url u\<rparr>)"

text \<open>
  What getRoomMessages shows of a row of \<open>messages\<close> whose author exists.
\<close>

definition MessageView_of :: "storage \<Rightarrow> messages_row \<Rightarrow> MessageView" where
  "MessageView_of db m =
     \<lparr>mv_message = m_message m,
      mv_from = (case m_from m of
                   None \<Rightarrow> \<lparr>from_name = None, from_avatarUrl = None\<rparr>
                 | Some i \<Rightarrow> author db i),
      createdAt = m_created_at m\<rparr>"

text \<open>
  A state of storage the results below are tried on: two users who hold the same access
  token, three rooms (the seeded Lobby, with no prompt), two messages in the Lobby and
  one in the room \<open>general\<close>.
\<close>

definition example_storage :: storage where
  "example_storage =
     \<lparr>users =
        [\<lparr>u_id = 1, u_created_at = 1, u_username = Some ''ann'', u_avatar_url = Some ''ann.png'',
          u_access_token = Some ''tok''\<rparr>,
         \<lparr>u_id = 2, u_created_at = 2, u_username = Some ''bob'', u_avatar_url = Some ''bob.png'',
          u_access_token = Some ''tok''\<rparr>],
      rooms =
        [\<lparr>r_id = 0, r_created_at = 0, r_name = ''Lobby'', r_prompt = None\<rparr>,
         \<lparr>r_id = 1, r_created_at = 1, r_name = ''general'', r_prompt = Some ''Be brief.''\<rparr>,
         \<lparr>r_id = 2, r_created_at = 2, r_name = ''quiet'', r_prompt = Some ''''\<rparr>],
      messages =
        [\<lparr>m_id = 1, m_created_at = 3, m_message = Some ''a'', m_from = Some 1, m_room = Some 0\<rparr>,
         \<lparr>m_id = 2, m_created_at = 4, m_message = Some ''b'', m_from = Some 2, m_room = Some 0\<rparr>,
         \<lparr>m_id = 3, m_created_at = 5, m_message = Some ''c'', m_from = Some 1, m_room = Some 1\<rparr>],
      rooms_id_seq = 3,
      messages_id_seq = 4\<rparr>"

section \<open>Lists: the order of a result, rows found by a key\<close>

lemma arrange_mset: "mset (arrange rk key xs) = mset xs"
  by (simp add: arrange_def)

lemma arrange_set: "set (arrange rk key xs) = set xs"
  by (simp add: arrange_def)

lemma arrange_length: "length (arrange rk key xs) = length xs"
  by (simp add: arrange_def)

lemma arrange_Nil: "arrange rk key [] = []"
  by (simp add: arrange_def)

lemma arrange_single: "arrange rk key [x] = [x]"
  by (simp add: arrange_def)

lemma arrange_const: "arrange (\<lambda>_. c) key xs = xs"
  by (simp add: arrange_def sort_key_const)

lemma arrange_sorted: "sorted (map (\<lambda>x. rk (key x)) (arrange rk key xs))"
  by (simp add: arrange_def)

lemma arrange_Nil_iff: "arrange rk key xs = [] \<longleftrightarrow> xs = []"
  using arrange_length [of rk key xs] by (metis length_0_conv)

lemma filter_key_le1:
  "distinct (map f xs) \<Longrightarrow> length (filter (\<lambda>x. f x = a) xs) \<le> 1"
proof (induction xs)
  case Nil
  then show ?case by simp
next
  case (Cons x xs)
  show ?case
  proof (cases "f x = a")
    case True
    with Cons.prems have "a \<notin> f ` set xs" by auto
    then have "filter (\<lambda>y. f y = a) xs = []" by (auto simp: filter_empty_conv)
    with True show ?thesis by simp
  next
    case False
    with Cons show ?thesis by simp
  qed
qed

lemma filter_key_single:
  assumes "distinct (map f xs)" and "x \<in> set xs" and "f x = a"
  shows "filter (\<lambda>y. f y = a) xs = [x]"
proof -
  have le: "length (filter (\<lambda>y. f y = a) xs) \<le> 1" using assms(1) by (rule filter_key_le1)
  have mem: "x \<in> set (filter (\<lambda>y. f y = a) xs)" using assms(2,3) by simp
  then obtain y ys where eq: "filter (\<lambda>y. f y = a) xs = y # ys"
    by (cases "filter (\<lambda>y. f y = a) xs") auto
  with le have "ys = []" by simp
  with eq mem show ?thesis by simp
qed

lemma filter_key_absent:
  "a \<notin> set (map f xs) \<Longrightarrow> filter (\<lambda>y. f y = a) xs = []"
  by (auto simp: filter_empty_conv)

section \<open>The statements keep the constraints\<close>

lemma rooms_insert_users [simp]: "users (snd (rooms_insert w n p db)) = users db"
  by (simp add: rooms_insert_def Let_def split: option.splits)

lemma rooms_insert_messages [simp]: "messages (snd (rooms_insert w n p db)) = messages db"
  by (simp add: rooms_insert_def Let_def split: option.splits)

lemma messages_insert_users [simp]: "users (snd (messages_insert w t a b db)) = users db"
  by (simp add: messages_insert_def Let_def split: option.splits)

lemma messages_insert_rooms [simp]: "rooms (snd (messages_insert w t a b db)) = rooms db"
  by (simp add: messages_insert_def Let_def split: option.splits)

lemma messages_insert_rooms_id_seq [simp]:
  "rooms_id_seq (snd (messages_insert w t a b db)) = rooms_id_seq db"
  by (simp add: messages_insert_def Let_def split: option.splits)

lemma users_upsert_rooms [simp]: "rooms (snd (users_upsert w i un av tok db)) = rooms db"
  by (simp add: users_upsert_def split: option.splits)

lemma users_upsert_messages [simp]: "messages (snd (users_upsert w i un av tok db)) = messages db"
  by (simp add: users_upsert_def split: option.splits)

lemma users_upsert_seqs [simp]:
  "rooms_id_seq (snd (users_upsert w i un av tok db)) = rooms_id_seq db"
  "messages_id_seq (snd (users_upsert w i un av tok db)) = messages_id_seq db"
  by (simp_all add: users_upsert_def split: option.splits)

lemma upsert_map_ids:
  "map u_id (map (\<lambda>u. if u_id u = i
                        then u\<lparr>u_username := un, u_avatar_url := av, u_access_token := tok\<rparr>
                        else u) xs) = map u_id xs"
  by (induction xs) auto

lemma users_upsert_ids:
  "map u_id (users (snd (users_upsert w i un av tok db))) = map u_id (users db) \<or>
   (i \<notin> set (map u_id (users db)) \<and>
    map u_id (users (snd (users_upsert w i un av tok db))) = map u_id (users db) @ [i])"
  by (simp add: users_upsert_def upsert_map_ids split: option.splits)

lemma mem_map_filter:
  "a \<in> set (List.map_filter f xs) \<longleftrightarrow> (\<exists>x\<in>set xs. f x = Some a)"
  by (induction xs) (auto split: option.splits)

lemma upsert_usernames_distinct:
  assumes "distinct (List.map_filter u_username xs)"
    and "distinct (map u_id xs)"
    and "un = None \<or> \<not> list_ex (\<lambda>u. u_id u \<noteq> i \<and> u_username u = un) xs"
  shows "distinct (List.map_filter u_username
           (map (\<lambda>u. if u_id u = i
                      then u\<lparr>u_username := un, u_avatar_url := av, u_access_token := tok\<rparr>
                      else u) xs))"
  using assms
proof (induction xs)
  case Nil
  then show ?case by (simp add: List.map_filter_simps)
next
  case (Cons x xs)
  let ?upd = "\<lambda>u. if u_id u = i
                  then u\<lparr>u_username := un, u_avatar_url := av, u_access_token := tok\<rparr>
                  else u"
  have d: "distinct (List.map_filter u_username xs)"
    using Cons.prems(1) by (auto simp: List.map_filter_simps split: option.splits)
  have di: "distinct (map u_id xs)" using Cons.prems(2) by simp
  have c: "un = None \<or> \<not> list_ex (\<lambda>u. u_id u \<noteq> i \<and> u_username u = un) xs"
    using Cons.prems(3) by auto
  have ih: "distinct (List.map_filter u_username (map ?upd xs))"
    using Cons.IH [OF d di c] .
  show ?case
  proof (cases "u_username (?upd x)")
    case None
    then show ?thesis using ih by (simp add: List.map_filter_simps)
  next
    case (Some a)
    have "a \<notin> set (List.map_filter u_username (map ?upd xs))"
    proof
      assume "a \<in> set (List.map_filter u_username (map ?upd xs))"
      then obtain y where y: "y \<in> set xs" "u_username (?upd y) = Some a"
        by (auto simp: mem_map_filter)
      show False
      proof (cases "u_id x = i")
        case True
        with Some have un: "un = Some a" by simp
        from Cons.prems(2) have "u_id x \<notin> u_id ` set xs" by simp
        with y(1) True have "u_id y \<noteq> i" by (metis imageI)
        with y(2) have "u_username y = Some a" by simp
        with \<open>u_id y \<noteq> i\<close> y(1) un Cons.prems(3) show False by (auto simp: list_ex_iff)
      next
        case False
        with Some have x: "u_username x = Some a" by simp
        show False
        proof (cases "u_id y = i")
          case True
          with y(2) have "un = Some a" by simp
          with x False Cons.prems(3) show False by auto
        next
          case False
          with y(2) have "u_username y = Some a" by simp
          with x y(1) Cons.prems(1) show False
            by (auto simp: List.map_filter_simps mem_map_filter)
        qed
      qed
    qed
    with ih Some show ?thesis by (simp add: List.map_filter_simps)
  qed
qed

lemma append_username_distinct:
  assumes "distinct (List.map_filter u_username xs)"
    and "un = None \<or> \<not> list_ex (\<lambda>u. u_id u \<noteq> i \<and> u_username u = un) xs"
    and "i \<notin> set (map u_id xs)"
    and "u_username x = un"
  shows "distinct (List.map_filter u_username (xs @ [x]))"
proof -
  have "List.map_filter u_username (xs @ [x]) =
        List.map_filter u_username xs @ (case un of None \<Rightarrow> [] | Some a \<Rightarrow> [a])"
    using assms(4) by (induction xs) (auto simp: List.map_filter_simps split: option.splits)
  moreover have "\<And>a. un = Some a \<Longrightarrow> a \<notin> set (List.map_filter u_username xs)"
    using assms(2,3) by (auto simp: mem_map_filter list_ex_iff)
  ultimately show ?thesis using assms(1) by (auto split: option.splits)
qed

lemma wf_users_upsert: "wf_storage db \<Longrightarrow> wf_storage (snd (users_upsert w i un av tok db))"
proof -
  assume wf: "wf_storage db"
  let ?upd = "\<lambda>u. if u_id u = i
                  then u\<lparr>u_username := un, u_avatar_url := av, u_access_token := tok\<rparr>
                  else u"
  let ?new = "\<lparr>u_id = i, u_created_at = now w, u_username = un, u_avatar_url = av,
               u_access_token = tok\<rparr>"
  show ?thesis
  proof (cases "fault w")
    case (Some e)
    with wf show ?thesis by (simp add: users_upsert_def)
  next
    case None
    show ?thesis
    proof (cases "un \<noteq> None \<and> list_ex (\<lambda>u. u_id u \<noteq> i \<and> u_username u = un) (users db)")
      case True
      with None wf show ?thesis by (simp add: users_upsert_def)
    next
      case False
      then have c: "un = None \<or> \<not> list_ex (\<lambda>u. u_id u \<noteq> i \<and> u_username u = un) (users db)"
        by blast
      show ?thesis
      proof (cases "i \<in> set (map u_id (users db))")
        case True
        have eq: "snd (users_upsert w i un av tok db) = db\<lparr>users := map ?upd (users db)\<rparr>"
          using None c True by (auto simp: users_upsert_def)
        have "distinct (List.map_filter u_username (map ?upd (users db)))"
          using wf c by (intro upsert_usernames_distinct) (simp_all add: wf_storage_def)
        moreover have "map u_id (map ?upd (users db)) = map u_id (users db)"
          by (rule upsert_map_ids)
        ultimately show ?thesis
          using wf unfolding eq wf_storage_def by (simp del: map_map)
      next
        case notin: False
        have eq: "snd (users_upsert w i un av tok db) = db\<lparr>users := users db @ [?new]\<rparr>"
          using None c notin by (auto simp: users_upsert_def)
        have "distinct (List.map_filter u_username (users db @ [?new]))"
          using wf c notin
          by (intro append_username_distinct [where i = i and un = un]) (simp_all add: wf_storage_def)
        then show ?thesis
          using wf notin unfolding eq wf_storage_def
          by auto
      qed
    qed
  qed
qed

lemma rooms_insert_rooms:
  "rooms (snd (rooms_insert w n p db)) = rooms db \<or>
   (\<exists>x. rooms (snd (rooms_insert w n p db)) = rooms db @ [x] \<and> r_name x = n
        \<and> r_id x = rooms_id_seq db \<and> r_id x \<notin> set (map r_id (rooms db))
        \<and> n \<notin> set (map r_name (rooms db)))"
  by (simp add: rooms_insert_def Let_def split: option.splits)

lemma wf_rooms_insert: "wf_storage db \<Longrightarrow> wf_storage (snd (rooms_insert w n p db))"
  unfolding wf_storage_def rooms_insert_def Let_def
  by (auto simp: list_all_iff split: option.splits)

lemma map_filter_append:
  "List.map_filter f (xs @ ys) = List.map_filter f xs @ List.map_filter f ys"
  by (induction xs) (auto split: option.splits)

lemma wf_messages_insert: "wf_storage db \<Longrightarrow> wf_storage (snd (messages_insert w t a b db))"
  unfolding wf_storage_def messages_insert_def Let_def
  by (auto simp: list_all_iff map_filter_append split: option.splits)


lemma wf_run_statement: "wf_storage db \<Longrightarrow> wf_storage (run_statement s db)"
  by (cases s) (simp_all add: wf_users_upsert wf_rooms_insert wf_messages_insert)

lemma wf_run: "wf_storage db \<Longrightarrow> wf_storage (run ws db)"
  unfolding run_def by (induction ws arbitrary: db) (simp_all add: wf_run_statement)

lemma wf_load: "load t None = Inr db \<Longrightarrow> wf_storage db"
  by (auto simp: load_def no_tables_def wf_storage_def)

lemma wf_example_storage: "wf_storage example_storage"
  by (simp add: wf_storage_def example_storage_def)

section \<open>The completion handler: request and reply\<close>

text \<open>
  C7, as stated, fails: the request of the handler does not carry a prompt of a room nor
  the message of a user. For a request whose body is \<open>hello\<close>, on the route of room 1
  (whose prompt in the example is \<open>Be brief.\<close>), the user-role instruction is the fixed
  text of line 17 and the system-role instruction is the fixed text of line 15: a
  provider that answers with the user instruction it was sent makes the handler answer
  \<open>jock for animal dog\<close>.
\<close>

theorem GET_request_counterexample:
  "content (request_messages GET_request ! 1) = ''jock for animal dog''
   \<and> content (request_messages GET_request ! 1) \<noteq> ''hello''
   \<and> content (request_messages GET_request ! 0) \<noteq> ''Be brief.''
   \<and> GET \<lparr>req_text = ''hello''\<rparr> \<lparr>params = [(''room'', ''1'')]\<rparr>
         (\<lambda>q. Inr (Some \<lparr>choices = [\<lparr>choice_message = request_messages q ! 1\<rparr>]\<rparr>))
       = Inr \<lparr>body = Some ''jock for animal dog'', status = 200\<rparr>"
  by (simp add: GET_request_def GET_def GET_text_def userContent_def SystemRoleContenet_def)

text \<open>
  C7, amended. The request of the handler holds exactly two instructions, in this order:
  the system-role one with the system text of line 15, then the user-role one with the
  text \<open>jock for animal dog\<close> of line 17, both as they are. The handler sends this one
  request whatever its two arguments are: its answer depends on the provider alone.
\<close>

theorem GET_request_two_instructions:
  "request_messages GET_request =
     [\<lparr>role = ''system'', content = SystemRoleContenet\<rparr>,
      \<lparr>role = ''user'', content = ''jock for animal dog''\<rparr>]
   \<and> length (request_messages GET_request) = 2
   \<and> GET req ctx provider =
       (case provider GET_request of
          Inl e \<Rightarrow> Inl e
        | Inr c \<Rightarrow> (case GET_text c of Inl e \<Rightarrow> Inl e | Inr t \<Rightarrow> Inr \<lparr>body = t, status = 200\<rparr>))
   \<and> GET req ctx provider = GET req' ctx' provider"
  by (simp add: GET_request_def GET_def userContent_def)

text \<open>
  C5, as stated, fails: on a completion with zero choices the reply text is absent and
  the handler answers with status 200 and no body; nothing is thrown.
\<close>

theorem GET_zero_choices_counterexample:
  "GET_text (Some \<lparr>choices = ([] :: string Choice list)\<rparr>) = Inr None
   \<and> GET \<lparr>req_text = []\<rparr> \<lparr>params = []\<rparr> (\<lambda>_. Inr (Some \<lparr>choices = []\<rparr>))
       = Inr \<lparr>body = None, status = 200\<rparr>"
  by (simp add: GET_text_def GET_def)

text \<open>
  C5, amended. A completion with at least one choice gives exactly the content of the
  message of its first choice, unmodified, and the handler answers with it. A completion
  with zero choices gives an absent text, with no failure, and the handler answers with
  status 200 and no body.
\<close>

theorem GET_text_first_choice:
  "GET_text (Some \<lparr>choices = ch # rest\<rparr>) = Inr (Some (content (choice_message ch)))
   \<and> GET req ctx (\<lambda>_. Inr (Some \<lparr>choices = ch' # rest'\<rparr>)) =
       Inr \<lparr>body = Some (content (choice_message ch')), status = 200\<rparr>
   \<and> GET_text (Some \<lparr>choices = []\<rparr>) = Inr None
   \<and> GET req ctx (\<lambda>_. Inr (Some \<lparr>choices = []\<rparr>)) = Inr \<lparr>body = None, status = 200\<rparr>"
  by (simp add: GET_text_def GET_def)

section \<open>insertMessage\<close>

text \<open>
  C2 at a failing input: a message for room 42, which does not exist, by the user 1 of
  the example. The write fails in storage with the foreign-key violation on \<open>room\<close>,
  and insertMessage returns normally all the same; no row is stored (only the identity
  sequence has moved on). Indeed insertMessage returns normally on every input, whatever
  the response of the insert.
\<close>

theorem insertMessage_foreign_key_violation_dropped:
  "error (fst (messages_insert \<lparr>fault = None, now = 9\<rparr> ''hi'' 42 1 example_storage))
     = Some (foreign_key_violation ''messages_room_fkey'')
   \<and> insertMessage \<lparr>fault = None, now = 9\<rparr> ''hi'' 42 1 example_storage
     = (Inr (), example_storage\<lparr>messages_id_seq := 5\<rparr>)
   \<and> fst (insertMessage w t i u db) = Inr ()"
  by (simp add: insertMessage_def messages_insert_def example_storage_def failed_def Let_def
        case_prod_beta)

section \<open>Rooms by id\<close>

lemma rooms_select_eq_id_absent:
  assumes "fault r = None" and "int4 i" and "i \<notin> set (map r_id (rooms db))"
  shows "rooms_select_eq_id r i db = succeeded (Some [])"
  using assms by (simp add: rooms_select_eq_id_def filter_key_absent arrange_Nil)

lemma rooms_select_eq_id_present:
  assumes "wf_storage db" and "fault r = None" and "int4 i"
    and "x \<in> set (rooms db)" and "r_id x = i"
  shows "rooms_select_eq_id r i db = succeeded (Some [x])"
proof -
  have "distinct (map r_id (rooms db))" using assms(1) by (simp add: wf_storage_def)
  then have "filter (\<lambda>y. r_id y = i) (rooms db) = [x]"
    using assms(4,5) by (rule filter_key_single)
  then show ?thesis using assms(2,3) by (simp add: rooms_select_eq_id_def arrange_single)
qed

lemma rooms_select_eq_id_out_of_range:
  assumes "fault r = None" and "\<not> int4 i"
  shows "rooms_select_eq_id r i db = failed out_of_range"
  using assms by (simp add: rooms_select_eq_id_def)

lemma rooms_select_eq_id_fault:
  "fault r = Some e \<Longrightarrow> rooms_select_eq_id r i db = failed e"
  by (simp add: rooms_select_eq_id_def)

text \<open>
  C4, as stated, fails: the code has no failure of its own for a room that is not found.
  For room 7, which the example does not have, getRoomName throws the \<open>TypeError\<close> of
  reading \<open>data[0].name\<close> of an empty result, and getRoomNamePrompt and getRoomPrompt
  throw the \<open>Error\<close> every storage error gives, with the message of \<open>.single()\<close>: a
  storage failure with that message on room 1, which exists, throws the very same value.
\<close>

theorem room_not_found_counterexample:
  "getRoomName \<lparr>fault = None, rank = (\<lambda>_. 0)\<rparr> 7 example_storage = Inl TypeError
   \<and> getRoomNamePrompt \<lparr>fault = None, rank = (\<lambda>_. 0)\<rparr> 7 example_storage
       = Inl (Error ''JSON object requested, multiple (or no) rows returned'')
   \<and> getRoomNamePrompt
         \<lparr>fault = Some \<lparr>message = ''JSON object requested, multiple (or no) rows returned'',
                         code = ''08006''\<rparr>,
          rank = (\<lambda>_. 0)\<rparr> 1 example_storage
       = Inl (Error ''JSON object requested, multiple (or no) rows returned'')
   \<and> getRoomPrompt \<lparr>fault = None, rank = (\<lambda>_. 0)\<rparr> 7 example_storage
       = Inl (Error ''JSON object requested, multiple (or no) rows returned'')
   \<and> getRoomPrompt
         \<lparr>fault = Some \<lparr>message = ''JSON object requested, multiple (or no) rows returned'',
                         code = ''08006''\<rparr>,
          rank = (\<lambda>_. 0)\<rparr> 1 example_storage
       = Inl (Error ''JSON object requested, multiple (or no) rows returned'')"
  by (simp add: getRoomName_def getRoomNamePrompt_def getRoomPrompt_def rooms_select_eq_id_def
        single_def failed_def succeeded_def no_single_row_def arrange_def int4_def
        example_storage_def)

text \<open>
  C4, amended. On storage that meets the constraints, with no fault on the read: for a
  roomId with no row in \<open>rooms\<close>, each of getRoomName, getRoomNamePrompt and
  getRoomPrompt fails, though not with a failure of its own kind: getRoomName by the
  \<open>TypeError\<close> of reading \<open>data[0].name\<close> of an empty result, the other two by the
  \<open>Error\<close> that carries the message of \<open>.single()\<close> on an empty result; for a roomId
  outside the range of the column all three fail with the \<open>Error\<close> of that storage
  error; for a roomId with a row, each succeeds with the stored name and prompt, the
  prompt possibly absent. Any storage failure of the read makes all three throw the
  \<open>Error\<close> with its message, the kind the two \<open>.single()\<close> readers throw for a room
  that is not found.
\<close>

theorem room_lookup_by_id:
  assumes "wf_storage db" and "fault r = None"
  shows "(int4 i \<longrightarrow> i \<notin> set (map r_id (rooms db)) \<longrightarrow>
            getRoomName r i db = Inl TypeError \<and>
            getRoomNamePrompt r i db = Inl (Error (message no_single_row)) \<and>
            getRoomPrompt r i db = Inl (Error (message no_single_row)))
       \<and> (\<not> int4 i \<longrightarrow>
            getRoomName r i db = Inl (Error (message out_of_range)) \<and>
            getRoomNamePrompt r i db = Inl (Error (message out_of_range)) \<and>
            getRoomPrompt r i db = Inl (Error (message out_of_range)))
       \<and> (\<forall>x. int4 i \<longrightarrow> x \<in> set (rooms db) \<longrightarrow> r_id x = i \<longrightarrow>
            getRoomName r i db = Inr (r_name x) \<and>
            getRoomNamePrompt r i db = Inr (r_name x, r_prompt x) \<and>
            getRoomPrompt r i db = Inr (r_prompt x))
       \<and> (\<forall>r' e. fault r' = Some e \<longrightarrow>
            getRoomName r' i db = Inl (Error (message e)) \<and>
            getRoomNamePrompt r' i db = Inl (Error (message e)) \<and>
            getRoomPrompt r' i db = Inl (Error (message e)))"
proof (intro conjI impI allI)
  assume "int4 i" and "i \<notin> set (map r_id (rooms db))"
  then have sel: "rooms_select_eq_id r i db = succeeded (Some [])"
    using assms(2) by (simp add: rooms_select_eq_id_absent)
  show "getRoomName r i db = Inl TypeError"
    by (simp add: getRoomName_def sel succeeded_def)
  show "getRoomNamePrompt r i db = Inl (Error (message no_single_row))"
    by (simp add: getRoomNamePrompt_def sel succeeded_def single_def failed_def)
  show "getRoomPrompt r i db = Inl (Error (message no_single_row))"
    by (simp add: getRoomPrompt_def sel succeeded_def single_def failed_def)
next
  assume "\<not> int4 i"
  then have sel: "rooms_select_eq_id r i db = failed out_of_range"
    using assms(2) by (simp add: rooms_select_eq_id_out_of_range)
  show "getRoomName r i db = Inl (Error (message out_of_range))"
    by (simp add: getRoomName_def sel failed_def)
  show "getRoomNamePrompt r i db = Inl (Error (message out_of_range))"
    by (simp add: getRoomNamePrompt_def sel single_def failed_def)
  show "getRoomPrompt r i db = Inl (Error (message out_of_range))"
    by (simp add: getRoomPrompt_def sel single_def failed_def)
next
  fix x assume "int4 i" and "x \<in> set (rooms db)" and "r_id x = i"
  then have sel: "rooms_select_eq_id r i db = succeeded (Some [x])"
    using assms by (simp add: rooms_select_eq_id_present)
  show "getRoomName r i db = Inr (r_name x)"
    by (simp add: getRoomName_def sel succeeded_def)
  show "getRoomNamePrompt r i db = Inr (r_name x, r_prompt x)"
    by (simp add: getRoomNamePrompt_def sel succeeded_def single_def)
  show "getRoomPrompt r i db = Inr (r_prompt x)"
    by (simp add: getRoomPrompt_def sel succeeded_def single_def)
next
  fix r' :: read_env and e
  assume "fault r' = Some e"
  then have sel: "rooms_select_eq_id r' i db = failed e" by (rule rooms_select_eq_id_fault)
  show "getRoomName r' i db = Inl (Error (message e))"
    by (simp add: getRoomName_def sel failed_def)
  show "getRoomNamePrompt r' i db = Inl (Error (message e))"
    by (simp add: getRoomNamePrompt_def sel single_def failed_def)
  show "getRoomPrompt r' i db = Inl (Error (message e))"
    by (simp add: getRoomPrompt_def sel single_def failed_def)
qed

text \<open>
  Witness for C4, amended: in the example no room has id 7; room 1 has a prompt, the
  Lobby none; 2147483648 is out of the range of the column.
\<close>

theorem room_lookup_by_id_witness:
  "wf_storage example_storage
   \<and> getRoomName \<lparr>fault = None, rank = (\<lambda>_. 0)\<rparr> 7 example_storage = Inl TypeError
   \<and> getRoomNamePrompt \<lparr>fault = None, rank = (\<lambda>_. 0)\<rparr> 7 example_storage
       = Inl (Error ''JSON object requested, multiple (or no) rows returned'')
   \<and> getRoomPrompt \<lparr>fault = None, rank = (\<lambda>_. 0)\<rparr> 7 example_storage
       = Inl (Error ''JSON object requested, multiple (or no) rows returned'')
   \<and> getRoomName \<lparr>fault = None, rank = (\<lambda>_. 0)\<rparr> 2147483648 example_storage
       = Inl (Error ''value is out of range for type integer'')
   \<and> getRoomName \<lparr>fault = None, rank = (\<lambda>_. 0)\<rparr> 1 example_storage = Inr ''general''
   \<and> getRoomNamePrompt \<lparr>fault = None, rank = (\<lambda>_. 0)\<rparr> 1 example_storage
       = Inr (''general'', Some ''Be brief.'')
   \<and> getRoomPrompt \<lparr>fault = None, rank = (\<lambda>_. 0)\<rparr> 0 example_storage = Inr None
   \<and> getRoomPrompt \<lparr>fault = Some \<lparr>message = ''connection lost'', code = ''08006''\<rparr>,
                     rank = (\<lambda>_. 0)\<rparr> 0 example_storage = Inl (Error ''connection lost'')"
proof -
  let ?r = "\<lparr>fault = None, rank = (\<lambda>_. 0)\<rparr> :: read_env"
  let ?e = "\<lparr>message = ''connection lost'', code = ''08006''\<rparr>"
  let ?r' = "\<lparr>fault = Some ?e, rank = (\<lambda>_. 0)\<rparr> :: read_env"
  have f: "fault ?r = None" by simp
  have f': "fault ?r' = Some ?e" by simp
  note t = room_lookup_by_id [OF wf_example_storage f]
  have absent: "7 \<notin> set (map r_id (rooms example_storage))"
    by (simp add: example_storage_def)
  have general: "\<lparr>r_id = 1, r_created_at = 1, r_name = ''general'', r_prompt = Some ''Be brief.''\<rparr>
      \<in> set (rooms example_storage)"
    by (simp add: example_storage_def)
  have lobby: "\<lparr>r_id = 0, r_created_at = 0, r_name = ''Lobby'', r_prompt = None\<rparr>
      \<in> set (rooms example_storage)"
    by (simp add: example_storage_def)
  have range: "int4 7" "int4 1" "int4 0" "\<not> int4 2147483648" by (simp_all add: int4_def)
  have "getRoomPrompt ?r' 0 example_storage = Inl (Error (message ?e))"
    using t [of 0] f' by blast
  with t [of 7] absent t [of 1] general t [of 0] lobby t [of 2147483648] range
    wf_example_storage
  show ?thesis by (simp add: no_single_row_def out_of_range_def)
qed

section \<open>ensureRoom\<close>

lemma ensureRoom_get_no_fault:
  "fault r = None \<Longrightarrow>
   ensureRoom_get r n db =
     (case arrange (rank r) r_id (filter (\<lambda>x. r_name x = n) (rooms db)) of
        [] \<Rightarrow> Inr None
      | x # _ \<Rightarrow> Inr (Some (r_id x)))"
  by (simp add: ensureRoom_get_def rooms_select_eq_name_def succeeded_def split: list.splits)

lemma ensureRoom_get_present:
  assumes "wf_storage db" and "fault r = None" and "x \<in> set (rooms db)" and "r_name x = n"
  shows "ensureRoom_get r n db = Inr (Some (r_id x))"
proof -
  have "distinct (map r_name (rooms db))" using assms(1) by (simp add: wf_storage_def)
  then have "filter (\<lambda>y. r_name y = n) (rooms db) = [x]"
    using assms(3,4) by (rule filter_key_single)
  then show ?thesis using assms(2) by (simp add: ensureRoom_get_no_fault arrange_single)
qed

lemma rooms_insert_error:
  assumes "wf_storage db" and "fault w = None"
  shows "error (fst (rooms_insert w n p db)) =
           (if n \<in> set (map r_name (rooms db))
            then Some (unique_violation ''rooms_name_key'') else None)"
proof -
  have "list_all (\<lambda>x. r_id x < rooms_id_seq db) (rooms db)"
    using assms(1) by (simp add: wf_storage_def)
  then have "rooms_id_seq db \<notin> set (map r_id (rooms db))"
    by (auto simp: list_all_iff)
  then show ?thesis
    using assms(2) by (simp add: rooms_insert_def Let_def failed_def succeeded_def)
qed

lemma rooms_insert_rejected:
  assumes "fault w = None" and "n \<in> set (map r_name (rooms db))"
  shows "snd (rooms_insert w n p db) = db\<lparr>rooms_id_seq := rooms_id_seq db + 1\<rparr>"
  using assms by (simp add: rooms_insert_def Let_def)

lemma ensureRoom_unfold:
  "ensureRoom w r n p db =
     (case error (fst (rooms_insert w n (Some p) db)) of
        None \<Rightarrow> (ensureRoom_get r n (snd (rooms_insert w n (Some p) db)),
                 snd (rooms_insert w n (Some p) db))
      | Some e \<Rightarrow>
          if code e \<noteq> ''23505''
          then (Inl (Error (message e)), snd (rooms_insert w n (Some p) db))
          else (ensureRoom_get r n (snd (rooms_insert w n (Some p) db)),
                snd (rooms_insert w n (Some p) db)))"
  by (simp add: ensureRoom_def case_prod_beta)

text \<open>
  C6. In ensureRoom, an insert that fails with any code other than 23505 (unique
  violation) surfaces as an error carrying the message of the failure; a failure with
  code 23505 is suppressed, and the result is that of the read by name. On storage that
  meets the constraints, the insert that reaches the tables fails exactly when the name
  is taken, with the unique violation on \<open>name\<close>; ensureRoom then returns the id of the
  room that holds the name.
\<close>

theorem ensureRoom_insert_failure:
  assumes "wf_storage db"
  shows "(\<forall>e. error (fst (rooms_insert w n (Some p) db)) = Some e \<longrightarrow> code e \<noteq> ''23505'' \<longrightarrow>
            fst (ensureRoom w r n p db) = Inl (Error (message e)))
       \<and> (\<forall>e. error (fst (rooms_insert w n (Some p) db)) = Some e \<longrightarrow> code e = ''23505'' \<longrightarrow>
            fst (ensureRoom w r n p db) = ensureRoom_get r n (snd (rooms_insert w n (Some p) db)))
       \<and> (fault w = None \<longrightarrow>
            error (fst (rooms_insert w n (Some p) db)) =
              (if n \<in> set (map r_name (rooms db))
               then Some (unique_violation ''rooms_name_key'') else None))
       \<and> (\<forall>x. fault w = None \<longrightarrow> fault r = None \<longrightarrow> x \<in> set (rooms db) \<longrightarrow> r_name x = n \<longrightarrow>
            ensureRoom w r n p db =
              (Inr (Some (r_id x)), db\<lparr>rooms_id_seq := rooms_id_seq db + 1\<rparr>))"
proof (intro conjI allI impI)
  fix e
  assume "error (fst (rooms_insert w n (Some p) db)) = Some e" and "code e \<noteq> ''23505''"
  then show "fst (ensureRoom w r n p db) = Inl (Error (message e))"
    by (simp add: ensureRoom_unfold)
next
  fix e
  assume "error (fst (rooms_insert w n (Some p) db)) = Some e" and "code e = ''23505''"
  then show "fst (ensureRoom w r n p db) = ensureRoom_get r n (snd (rooms_insert w n (Some p) db))"
    by (simp add: ensureRoom_unfold)
next
  assume "fault w = None"
  with assms show "error (fst (rooms_insert w n (Some p) db)) =
      (if n \<in> set (map r_name (rooms db)) then Some (unique_violation ''rooms_name_key'') else None)"
    by (rule rooms_insert_error)
next
  fix x
  assume w: "fault w = None" and r: "fault r = None" and x: "x \<in> set (rooms db)" "r_name x = n"
  let ?db' = "db\<lparr>rooms_id_seq := rooms_id_seq db + 1\<rparr>"
  from x have n: "n \<in> set (map r_name (rooms db))" by auto
  have err: "error (fst (rooms_insert w n (Some p) db)) = Some (unique_violation ''rooms_name_key'')"
    using rooms_insert_error [OF assms w] n by simp
  have st: "snd (rooms_insert w n (Some p) db) = ?db'"
    using w n by (rule rooms_insert_rejected)
  have "wf_storage ?db'" using wf_rooms_insert [OF assms, of w n "Some p"] st by simp
  moreover have "x \<in> set (rooms ?db')" using x(1) by simp
  ultimately have "ensureRoom_get r n ?db' = Inr (Some (r_id x))"
    using r x(2) by (intro ensureRoom_get_present)
  with err st show "ensureRoom w r n p db = (Inr (Some (r_id x)), ?db')"
    by (simp add: ensureRoom_unfold unique_violation_def)
qed

text \<open>
  Witness for C6: \<open>general\<close> is taken in the example, so the insert is rejected and
  ensureRoom returns room 1; a permission failure of the insert surfaces.
\<close>

theorem ensureRoom_insert_failure_witness:
  "wf_storage example_storage
   \<and> ensureRoom \<lparr>fault = None, now = 9\<rparr> \<lparr>fault = None, rank = (\<lambda>_. 0)\<rparr> ''general'' ''other''
       example_storage = (Inr (Some 1), example_storage\<lparr>rooms_id_seq := 4\<rparr>)
   \<and> fst (ensureRoom \<lparr>fault = Some \<lparr>message = ''permission denied for table rooms'', code = ''42501''\<rparr>,
                      now = 9\<rparr> \<lparr>fault = None, rank = (\<lambda>_. 0)\<rparr> ''general'' ''other'' example_storage)
       = Inl (Error ''permission denied for table rooms'')"
proof -
  let ?r = "\<lparr>fault = None, rank = (\<lambda>_. 0)\<rparr> :: read_env"
  let ?w = "\<lparr>fault = None, now = 9\<rparr> :: write_env"
  let ?e = "\<lparr>message = ''permission denied for table rooms'', code = ''42501''\<rparr>"
  let ?w' = "\<lparr>fault = Some ?e, now = 9\<rparr> :: write_env"
  let ?x = "\<lparr>r_id = 1, r_created_at = 1, r_name = ''general'', r_prompt = Some ''Be brief.''\<rparr>"
  note t = ensureRoom_insert_failure [OF wf_example_storage]
  have x: "?x \<in> set (rooms example_storage)" by (simp add: example_storage_def)
  have "ensureRoom ?w ?r ''general'' ''other'' example_storage
      = (Inr (Some (r_id ?x)), example_storage\<lparr>rooms_id_seq := rooms_id_seq example_storage + 1\<rparr>)"
    using t [of ?w "''general''" "''other''" ?r] x by simp
  moreover have "rooms_id_seq example_storage + 1 = 4" by (simp add: example_storage_def)
  moreover have "error (fst (rooms_insert ?w' ''general'' (Some ''other'') example_storage)) = Some ?e"
    by (simp add: rooms_insert_def failed_def)
  then have "fst (ensureRoom ?w' ?r ''general'' ''other'' example_storage) = Inl (Error (message ?e))"
    using t [of ?w' "''general''" "''other''" ?r] by simp
  ultimately show ?thesis using wf_example_storage by simp
qed

section \<open>Users\<close>

lemma insertUser_unfold:
  "insertUser w user db =
     (case error (fst (users_upsert w (userId user) (userName user) (avatarUrl user)
                         (Some (accessToken user)) db)) of
        Some e \<Rightarrow> (Inl (Error (message e)),
                   snd (users_upsert w (userId user) (userName user) (avatarUrl user)
                         (Some (accessToken user)) db))
      | None \<Rightarrow> (Inr (),
                 snd (users_upsert w (userId user) (userName user) (avatarUrl user)
                         (Some (accessToken user)) db)))"
  by (simp add: insertUser_def case_prod_beta)






lemma users_upsert_any_token:
  "fst (users_upsert w i un av tok db) = fst (users_upsert w i un av tok' db)"
  by (simp add: users_upsert_def split: option.splits)

text \<open>
  C10. Whether an upsert is accepted does not depend on its access token: storage keeps
  no token unique. With no fault on the read, storage returns every row that holds the
  token, in its result order (by rank), however many they are; getUserByAccessToken
  does not fail on more than one: it returns the first of them, as the three fields
  userId, userName and avatarUrl, and nothing when there is none.
\<close>

theorem getUserByAccessToken_first_row:
  assumes "fault r = None"
  shows "fst (insertUser w (user\<lparr>accessToken := t\<rparr>) db) = fst (insertUser w user db)
       \<and> (\<exists>rows. data (users_select_eq_access_token r tok db) = Some rows
            \<and> mset rows = mset (filter (\<lambda>u. u_access_token u = Some tok) (users db))
            \<and> sorted (map (\<lambda>u. rank r (u_id u)) rows)
            \<and> getUserByAccessToken r tok db =
                (case rows of
                   [] \<Rightarrow> Inr None
                 | u # _ \<Rightarrow> Inr (Some \<lparr>userId = u_id u, userName = u_username u,
                                        avatarUrl = u_avatar_url u\<rparr>)))"
proof
  have "fst (users_upsert w (userId user) (userName user) (avatarUrl user) (Some t) db)
      = fst (users_upsert w (userId user) (userName user) (avatarUrl user)
              (Some (accessToken user)) db)"
    by (rule users_upsert_any_token)
  then show "fst (insertUser w (user\<lparr>accessToken := t\<rparr>) db) = fst (insertUser w user db)"
    by (simp add: insertUser_unfold split: option.splits)
next
  let ?rows = "arrange (rank r) u_id (filter (\<lambda>u. u_access_token u = Some tok) (users db))"
  have "data (users_select_eq_access_token r tok db) = Some ?rows"
    using assms by (simp add: users_select_eq_access_token_def succeeded_def)
  moreover have "mset ?rows = mset (filter (\<lambda>u. u_access_token u = Some tok) (users db))"
    by (rule arrange_mset)
  moreover have "sorted (map (\<lambda>u. rank r (u_id u)) ?rows)"
    by (rule arrange_sorted)
  moreover have "getUserByAccessToken r tok db =
      (case ?rows of
         [] \<Rightarrow> Inr None
       | u # _ \<Rightarrow> Inr (Some \<lparr>userId = u_id u, userName = u_username u,
                              avatarUrl = u_avatar_url u\<rparr>))"
    using assms
    by (simp add: getUserByAccessToken_def users_select_eq_access_token_def succeeded_def
          split: list.splits)
  ultimately show "\<exists>rows. data (users_select_eq_access_token r tok db) = Some rows
            \<and> mset rows = mset (filter (\<lambda>u. u_access_token u = Some tok) (users db))
            \<and> sorted (map (\<lambda>u. rank r (u_id u)) rows)
            \<and> getUserByAccessToken r tok db =
                (case rows of
                   [] \<Rightarrow> Inr None
                 | u # _ \<Rightarrow> Inr (Some \<lparr>userId = u_id u, userName = u_username u,
                                        avatarUrl = u_avatar_url u\<rparr>))"
    by blast
qed

text \<open>
  Witness for C10: both users of the example hold the token; the result order decides
  which of them is returned.
\<close>

theorem getUserByAccessToken_first_row_witness:
  "length (filter (\<lambda>u. u_access_token u = Some ''tok'') (users example_storage)) = 2
   \<and> getUserByAccessToken \<lparr>fault = None, rank = (\<lambda>_. 0)\<rparr> ''tok'' example_storage
       = Inr (Some \<lparr>userId = 1, userName = Some ''ann'', avatarUrl = Some ''ann.png''\<rparr>)
   \<and> getUserByAccessToken \<lparr>fault = None, rank = (\<lambda>i. if i = 1 then 1 else 0)\<rparr> ''tok''
        example_storage
       = Inr (Some \<lparr>userId = 2, userName = Some ''bob'', avatarUrl = Some ''bob.png''\<rparr>)
   \<and> (\<exists>rows. data (users_select_eq_access_token \<lparr>fault = None, rank = (\<lambda>_. 0)\<rparr> ''tok''
                example_storage) = Some rows \<and> length rows = 2)"
proof -
  let ?r = "\<lparr>fault = None, rank = (\<lambda>_. 0)\<rparr> :: read_env"
  have f: "fault ?r = None" by simp
  have a: "getUserByAccessToken ?r ''tok'' example_storage
       = Inr (Some \<lparr>userId = 1, userName = Some ''ann'', avatarUrl = Some ''ann.png''\<rparr>)"
    by (simp add: getUserByAccessToken_def users_select_eq_access_token_def succeeded_def
          arrange_def example_storage_def)
  have b: "getUserByAccessToken \<lparr>fault = None, rank = (\<lambda>i. if i = 1 then 1 else 0)\<rparr> ''tok''
        example_storage
       = Inr (Some \<lparr>userId = 2, userName = Some ''bob'', avatarUrl = Some ''bob.png''\<rparr>)"
    by (simp add: getUserByAccessToken_def users_select_eq_access_token_def succeeded_def
          arrange_def example_storage_def)
  have c: "length (filter (\<lambda>u. u_access_token u = Some ''tok'') (users example_storage)) = 2"
    by (simp add: example_storage_def)
  from getUserByAccessToken_first_row [OF f, of _ _ _ example_storage "''tok''"]
  obtain rows where "data (users_select_eq_access_token ?r ''tok'' example_storage) = Some rows"
    and "mset rows = mset (filter (\<lambda>u. u_access_token u = Some ''tok'') (users example_storage))"
    by blast
  then have "data (users_select_eq_access_token ?r ''tok'' example_storage) = Some rows
      \<and> length rows = 2"
    using c by (metis size_mset)
  with a b c show ?thesis by blast
qed

section \<open>ensureRoom: one room for a name\<close>

lemma rooms_run_statement: "\<exists>ys. rooms (run_statement s db) = rooms db @ ys"
proof (cases s)
  case (Rooms_insert w n p)
  then show ?thesis using rooms_insert_rooms [of w n p db] by auto
qed simp_all

lemma rooms_run: "\<exists>ys. rooms (run ws db) = rooms db @ ys"
  unfolding run_def
proof (induction ws arbitrary: db)
  case Nil
  then show ?case by simp
next
  case (Cons s ws)
  obtain ys where "rooms (run_statement s db) = rooms db @ ys"
    using rooms_run_statement by blast
  moreover obtain zs where "rooms (fold run_statement ws (run_statement s db))
      = rooms (run_statement s db) @ zs"
    using Cons.IH by blast
  ultimately show ?case by simp
qed

lemma run_append: "run (ws @ ws') db = run ws' (run ws db)"
  by (simp add: run_def)

lemma ensureRoom_get_Some:
  assumes "ensureRoom_get r n db = Inr (Some i)"
  shows "\<exists>x\<in>set (rooms db). r_name x = n \<and> r_id x = i"
proof -
  from assms have f: "fault r = None"
    by (auto simp: ensureRoom_get_def rooms_select_eq_name_def failed_def split: option.splits)
  let ?rows = "arrange (rank r) r_id (filter (\<lambda>x. r_name x = n) (rooms db))"
  from assms f obtain x xs where rows: "?rows = x # xs" and i: "r_id x = i"
    by (auto simp: ensureRoom_get_no_fault split: list.splits)
  have "x \<in> set ?rows" using rows by simp
  then have "x \<in> set (filter (\<lambda>x. r_name x = n) (rooms db))"
    by (simp only: arrange_set)
  with i show ?thesis by auto
qed

lemma same_name_same_row:
  assumes "wf_storage db" and "x \<in> set (rooms db)" and "y \<in> set (rooms db)"
    and "r_name x = r_name y"
  shows "x = y"
proof -
  have "inj_on r_name (set (rooms db))"
    using assms(1) by (simp add: wf_storage_def distinct_map)
  then show ?thesis using assms(2-4) by (auto dest: inj_onD)
qed

lemma ensureRoom_get_agree:
  assumes "wf_storage db"
    and "ensureRoom_get r n db = Inr (Some i)"
    and "ensureRoom_get r' n (run ws db) = Inr (Some j)"
  shows "i = j"
proof -
  obtain x where x: "x \<in> set (rooms db)" "r_name x = n" "r_id x = i"
    using ensureRoom_get_Some [OF assms(2)] by blast
  obtain y where y: "y \<in> set (rooms (run ws db))" "r_name y = n" "r_id y = j"
    using ensureRoom_get_Some [OF assms(3)] by blast
  obtain ys where "rooms (run ws db) = rooms db @ ys" using rooms_run by blast
  with x(1) have "x \<in> set (rooms (run ws db))" by simp
  moreover have "wf_storage (run ws db)" using assms(1) by (rule wf_run)
  ultimately have "x = y" using y(1) x(2) y(2) by (intro same_name_same_row) simp_all
  with x(3) y(3) show ?thesis by simp
qed

lemma ensureRoom_state:
  "snd (ensureRoom w r n p db) = run [Rooms_insert w n (Some p)] db"
  by (simp add: ensureRoom_unfold run_def split: option.splits)

lemma ensureRoom_returns_read:
  "fst (ensureRoom w r n p db) = Inr (Some i) \<Longrightarrow>
   ensureRoom_get r n (snd (ensureRoom w r n p db)) = Inr (Some i)"
  by (auto simp: ensureRoom_unfold split: option.splits if_splits)

lemma ensureRoom_succeeds:
  assumes "wf_storage db" and "fault w = None" and "fault r = None"
  shows "\<exists>i. fst (ensureRoom w r n p db) = Inr (Some i)"
proof -
  let ?db' = "snd (rooms_insert w n (Some p) db)"
  have wf': "wf_storage ?db'" using assms(1) by (rule wf_rooms_insert)
  have "n \<in> set (map r_name (rooms ?db'))"
  proof (cases "n \<in> set (map r_name (rooms db))")
    case True
    with assms(2) show ?thesis by (simp add: rooms_insert_rejected)
  next
    case False
    have "list_all (\<lambda>x. r_id x < rooms_id_seq db) (rooms db)"
      using assms(1) by (simp add: wf_storage_def)
    then have "rooms_id_seq db \<notin> set (map r_id (rooms db))"
      by (auto simp: list_all_iff)
    with False assms(2) show ?thesis by (simp add: rooms_insert_def Let_def)
  qed
  then obtain x where x: "x \<in> set (rooms ?db')" "r_name x = n" by auto
  with wf' assms(3) have get: "ensureRoom_get r n ?db' = Inr (Some (r_id x))"
    by (intro ensureRoom_get_present)
  have "error (fst (rooms_insert w n (Some p) db)) = None \<or>
        error (fst (rooms_insert w n (Some p) db)) = Some (unique_violation ''rooms_name_key'')"
    using rooms_insert_error [OF assms(1,2), of n "Some p"] by (simp split: if_splits)
  then have "fst (ensureRoom w r n p db) = Inr (Some (r_id x))"
    using get by (auto simp: ensureRoom_unfold unique_violation_def)
  then show ?thesis by blast
qed

lemma ensureRoom_interleaved_unfold:
  "ensureRoom_interleaved w between r n p db =
     (case error (fst (rooms_insert w n (Some p) db)) of
        None \<Rightarrow> (ensureRoom_get r n (run between (snd (rooms_insert w n (Some p) db))),
                 run between (snd (rooms_insert w n (Some p) db)))
      | Some e \<Rightarrow>
          if code e \<noteq> ''23505''
          then (Inl (Error (message e)), snd (rooms_insert w n (Some p) db))
          else (ensureRoom_get r n (run between (snd (rooms_insert w n (Some p) db))),
                run between (snd (rooms_insert w n (Some p) db))))"
  by (simp add: ensureRoom_interleaved_def case_prod_beta)

lemma ensureRoom_interleaved_Nil:
  "ensureRoom w r n p db = ensureRoom_interleaved w [] r n p db"
  by (simp add: ensureRoom_unfold ensureRoom_interleaved_unfold run_def split: option.splits)

lemma ensureRoom_interleaved_read:
  assumes "fst (ensureRoom_interleaved w between r n p db) = Inr (Some i)"
  shows "snd (ensureRoom_interleaved w between r n p db)
           = run between (snd (rooms_insert w n (Some p) db))"
    and "ensureRoom_get r n (run between (snd (rooms_insert w n (Some p) db))) = Inr (Some i)"
  using assms by (auto simp: ensureRoom_interleaved_unfold split: option.splits if_splits)

lemma wf_ensureRoom_interleaved:
  assumes "wf_storage db"
  shows "wf_storage (snd (ensureRoom_interleaved w between r n p db))"
proof -
  have "wf_storage (snd (rooms_insert w n (Some p) db))" using assms by (rule wf_rooms_insert)
  moreover from this have "wf_storage (run between (snd (rooms_insert w n (Some p) db)))"
    by (rule wf_run)
  ultimately show ?thesis
    by (simp add: ensureRoom_interleaved_unfold split: option.splits)
qed

lemma row_persists:
  assumes "wf_storage db" and "x \<in> set (rooms db)" and "r_name x = n"
  shows "filter (\<lambda>y. r_name y = n) (rooms (run ws db)) = [x]"
proof -
  obtain ys where "rooms (run ws db) = rooms db @ ys" using rooms_run by blast
  with assms(2) have "x \<in> set (rooms (run ws db))" by simp
  moreover have "distinct (map r_name (rooms (run ws db)))"
    using wf_run [OF assms(1), of ws] by (simp add: wf_storage_def)
  ultimately show ?thesis using assms(3) by (intro filter_key_single)
qed

lemma read_is_the_row:
  assumes "wf_storage db" and "ensureRoom_get r n db = Inr (Some i)"
  shows "\<exists>x. r_id x = i \<and> (\<forall>ws. filter (\<lambda>y. r_name y = n) (rooms (run ws db)) = [x])"
proof -
  obtain x where x: "x \<in> set (rooms db)" "r_name x = n" "r_id x = i"
    using ensureRoom_get_Some [OF assms(2)] by blast
  have "\<forall>ws. filter (\<lambda>y. r_name y = n) (rooms (run ws db)) = [x]"
    using row_persists [OF assms(1) x(1,2)] by blast
  with x(3) show ?thesis by blast
qed

lemma rooms_insert_leaves_row:
  assumes "wf_storage db" and "fault w = None"
  shows "\<exists>x \<in> set (rooms (snd (rooms_insert w n p db))). r_name x = n"
proof (cases "n \<in> set (map r_name (rooms db))")
  case True
  with assms(2) show ?thesis by (auto simp: rooms_insert_rejected)
next
  case False
  have "list_all (\<lambda>x. r_id x < rooms_id_seq db) (rooms db)"
    using assms(1) by (simp add: wf_storage_def)
  then have "rooms_id_seq db \<notin> set (map r_id (rooms db))"
    by (auto simp: list_all_iff)
  with False assms(2) show ?thesis by (simp add: rooms_insert_def Let_def)
qed

lemma ensureRoom_interleaved_succeeds:
  assumes "wf_storage db" and "fault w = None" and "fault r = None"
  shows "\<exists>i. fst (ensureRoom_interleaved w between r n p db) = Inr (Some i)"
proof -
  let ?db' = "snd (rooms_insert w n (Some p) db)"
  have wf': "wf_storage ?db'" using assms(1) by (rule wf_rooms_insert)
  obtain x where x: "x \<in> set (rooms ?db')" "r_name x = n"
    using rooms_insert_leaves_row [OF assms(1,2)] by blast
  have "filter (\<lambda>y. r_name y = n) (rooms (run between ?db')) = [x]"
    using wf' x by (rule row_persists)
  then have "x \<in> set (filter (\<lambda>y. r_name y = n) (rooms (run between ?db')))" by simp
  then have "x \<in> set (rooms (run between ?db'))" by simp
  moreover have "wf_storage (run between ?db')" using wf' by (rule wf_run)
  ultimately have get: "ensureRoom_get r n (run between ?db') = Inr (Some (r_id x))"
    using assms(3) x(2) by (intro ensureRoom_get_present)
  have "error (fst (rooms_insert w n (Some p) db)) = None \<or>
        error (fst (rooms_insert w n (Some p) db)) = Some (unique_violation ''rooms_name_key'')"
    using rooms_insert_error [OF assms(1,2), of n "Some p"] by (simp split: if_splits)
  then have "fst (ensureRoom_interleaved w between r n p db) = Inr (Some (r_id x))"
    using get by (auto simp: ensureRoom_interleaved_unfold unique_violation_def)
  then show ?thesis by blast
qed

lemma overlapping_calls_agree:
  assumes "wf_storage db"
    and a: "fst (ensureRoom_interleaved wa (pre @ Rooms_insert wb n (Some pb) # mid @ post_a)
                   ra n pa db) = Inr (Some i)"
    and b: "fst (ensureRoom_interleaved wb (mid @ post_b) rb n pb
                   (run pre (snd (rooms_insert wa n (Some pa) db)))) = Inr (Some j)"
    and one: "post_a = [] \<or> post_b = []"
  shows "i = j"
proof -
  let ?sa = "snd (rooms_insert wa n (Some pa) db)"
  let ?sb = "run (pre @ [Rooms_insert wb n (Some pb)] @ mid) ?sa"
  have wfb: "wf_storage ?sb" using assms(1) by (intro wf_run wf_rooms_insert)
  have ra: "ensureRoom_get ra n (run post_a ?sb) = Inr (Some i)"
    using ensureRoom_interleaved_read(2) [OF a] by (simp add: run_def)
  have rb: "ensureRoom_get rb n (run post_b ?sb) = Inr (Some j)"
    using ensureRoom_interleaved_read(2) [OF b] by (simp add: run_def)
  from one show ?thesis
  proof
    assume "post_a = []"
    with ra have "ensureRoom_get ra n ?sb = Inr (Some i)" by (simp add: run_def)
    with wfb show ?thesis using rb by (rule ensureRoom_get_agree)
  next
    assume "post_b = []"
    with rb have "ensureRoom_get rb n ?sb = Inr (Some j)" by (simp add: run_def)
    with wfb have "j = i" using ra by (rule ensureRoom_get_agree)
    then show ?thesis by simp
  qed
qed

text \<open>
  C1. On storage that meets the constraints, in every execution (the statements of any
  callers, interleaved in any way): at most one row of \<open>rooms\<close> holds a given name; two
  reads by that name (the second half of ensureRoom) that find a room return the same
  id, whatever ran between them; so two calls of ensureRoom for the name that return an
  id return the same id, whatever ran before and between them; and a call whose insert
  and read meet no outside fault returns an id. The id a call returns is the id of the
  one row that holds the name when the call ends, and that row stays the one row of the
  name in whatever follows. The same holds of a call during which other requests run
  statements, between its insert and its read: it returns an id when it meets no fault,
  the id is that of the one row of the name, and two calls that overlap (the second
  inserts while the first waits for its read, and either reads first) return the same
  id, as do two calls one after the other.
\<close>

theorem ensureRoom_one_room_per_name:
  assumes "wf_storage db"
  shows "length (filter (\<lambda>x. r_name x = n) (rooms (run ws db))) \<le> 1
       \<and> (\<forall>r r' i j. ensureRoom_get r n (run ws db) = Inr (Some i) \<longrightarrow>
             ensureRoom_get r' n (run ws' (run ws db)) = Inr (Some j) \<longrightarrow> i = j)
       \<and> (\<forall>w r p w' r' p' i j.
             fst (ensureRoom w r n p (run ws db)) = Inr (Some i) \<longrightarrow>
             fst (ensureRoom w' r' n p' (run ws' (snd (ensureRoom w r n p (run ws db)))))
               = Inr (Some j) \<longrightarrow> i = j)
       \<and> (\<forall>w r p. fault w = None \<longrightarrow> fault r = None \<longrightarrow>
             (\<exists>i. fst (ensureRoom w r n p (run ws db)) = Inr (Some i)))
       \<and> (\<forall>w r p i. fst (ensureRoom w r n p (run ws db)) = Inr (Some i) \<longrightarrow>
             (\<exists>x. r_id x = i \<and> r_name x = n \<and>
                  filter (\<lambda>y. r_name y = n) (rooms (snd (ensureRoom w r n p (run ws db)))) = [x] \<and>
                  (\<forall>after. filter (\<lambda>y. r_name y = n)
                     (rooms (run after (snd (ensureRoom w r n p (run ws db))))) = [x])))
       \<and> (\<forall>w r p. ensureRoom w r n p (run ws db) = ensureRoom_interleaved w [] r n p (run ws db))
       \<and> (\<forall>w between r p i.
             fst (ensureRoom_interleaved w between r n p (run ws db)) = Inr (Some i) \<longrightarrow>
             (\<exists>x. r_id x = i \<and> r_name x = n \<and>
                  filter (\<lambda>y. r_name y = n)
                    (rooms (snd (ensureRoom_interleaved w between r n p (run ws db)))) = [x] \<and>
                  (\<forall>after. filter (\<lambda>y. r_name y = n)
                     (rooms (run after (snd (ensureRoom_interleaved w between r n p (run ws db)))))
                     = [x])))
       \<and> (\<forall>w between r p. fault w = None \<longrightarrow> fault r = None \<longrightarrow>
             (\<exists>i. fst (ensureRoom_interleaved w between r n p (run ws db)) = Inr (Some i)))
       \<and> (\<forall>w between r p w' between' r' p' i j.
             fst (ensureRoom_interleaved w between r n p (run ws db)) = Inr (Some i) \<longrightarrow>
             fst (ensureRoom_interleaved w' between' r' n p'
                    (run ws' (snd (ensureRoom_interleaved w between r n p (run ws db)))))
               = Inr (Some j) \<longrightarrow> i = j)
       \<and> (\<forall>wa ra pa wb rb pb pre mid later i j.
             fst (ensureRoom_interleaved wa (pre @ Rooms_insert wb n (Some pb) # mid) ra n pa
                    (run ws db)) = Inr (Some i) \<longrightarrow>
             fst (ensureRoom_interleaved wb (mid @ later) rb n pb
                    (run pre (snd (rooms_insert wa n (Some pa) (run ws db))))) = Inr (Some j) \<longrightarrow>
             i = j)
       \<and> (\<forall>wa ra pa wb rb pb pre mid later i j.
             fst (ensureRoom_interleaved wa (pre @ Rooms_insert wb n (Some pb) # mid @ later) ra n pa
                    (run ws db)) = Inr (Some i) \<longrightarrow>
             fst (ensureRoom_interleaved wb mid rb n pb
                    (run pre (snd (rooms_insert wa n (Some pa) (run ws db))))) = Inr (Some j) \<longrightarrow>
             i = j)"
proof -
  have wf: "wf_storage (run ws db)" using assms by (rule wf_run)
  have c1: "length (filter (\<lambda>x. r_name x = n) (rooms (run ws db))) \<le> 1"
  proof -
    from wf have "distinct (map r_name (rooms (run ws db)))" by (simp add: wf_storage_def)
    then show ?thesis by (rule filter_key_le1)
  qed
  have c2: "\<forall>r r' i j. ensureRoom_get r n (run ws db) = Inr (Some i) \<longrightarrow>
             ensureRoom_get r' n (run ws' (run ws db)) = Inr (Some j) \<longrightarrow> i = j"
    using ensureRoom_get_agree [OF wf] by blast
  have row: "\<And>w between r p i.
      fst (ensureRoom_interleaved w between r n p (run ws db)) = Inr (Some i) \<Longrightarrow>
      \<exists>x. r_id x = i \<and> r_name x = n \<and>
          filter (\<lambda>y. r_name y = n)
            (rooms (snd (ensureRoom_interleaved w between r n p (run ws db)))) = [x] \<and>
          (\<forall>after. filter (\<lambda>y. r_name y = n)
             (rooms (run after (snd (ensureRoom_interleaved w between r n p (run ws db))))) = [x])"
  proof -
    fix w between r p i
    let ?s = "snd (ensureRoom_interleaved w between r n p (run ws db))"
    assume a: "fst (ensureRoom_interleaved w between r n p (run ws db)) = Inr (Some i)"
    have wfs: "wf_storage ?s" using wf by (rule wf_ensureRoom_interleaved)
    have "ensureRoom_get r n ?s = Inr (Some i)"
      using ensureRoom_interleaved_read [OF a] by simp
    then obtain x where x: "x \<in> set (rooms ?s)" "r_name x = n" "r_id x = i"
      using ensureRoom_get_Some by blast
    have all: "\<forall>after. filter (\<lambda>y. r_name y = n) (rooms (run after ?s)) = [x]"
      using row_persists [OF wfs x(1,2)] by blast
    then have "filter (\<lambda>y. r_name y = n) (rooms (run [] ?s)) = [x]" by blast
    then have "filter (\<lambda>y. r_name y = n) (rooms ?s) = [x]" by (simp add: run_def)
    with x all show "\<exists>x. r_id x = i \<and> r_name x = n \<and>
          filter (\<lambda>y. r_name y = n) (rooms ?s) = [x] \<and>
          (\<forall>after. filter (\<lambda>y. r_name y = n) (rooms (run after ?s)) = [x])"
      by blast
  qed
  have c7: "\<forall>w between r p i.
             fst (ensureRoom_interleaved w between r n p (run ws db)) = Inr (Some i) \<longrightarrow>
             (\<exists>x. r_id x = i \<and> r_name x = n \<and>
                  filter (\<lambda>y. r_name y = n)
                    (rooms (snd (ensureRoom_interleaved w between r n p (run ws db)))) = [x] \<and>
                  (\<forall>after. filter (\<lambda>y. r_name y = n)
                     (rooms (run after (snd (ensureRoom_interleaved w between r n p (run ws db)))))
                     = [x]))"
    using row by blast
  have c6: "\<forall>w r p. ensureRoom w r n p (run ws db) = ensureRoom_interleaved w [] r n p (run ws db)"
    by (simp add: ensureRoom_interleaved_Nil)
  have c5: "\<forall>w r p i. fst (ensureRoom w r n p (run ws db)) = Inr (Some i) \<longrightarrow>
             (\<exists>x. r_id x = i \<and> r_name x = n \<and>
                  filter (\<lambda>y. r_name y = n) (rooms (snd (ensureRoom w r n p (run ws db)))) = [x] \<and>
                  (\<forall>after. filter (\<lambda>y. r_name y = n)
                     (rooms (run after (snd (ensureRoom w r n p (run ws db))))) = [x]))"
    using c7 unfolding ensureRoom_interleaved_Nil by blast
  have c8: "\<forall>w between r p. fault w = None \<longrightarrow> fault r = None \<longrightarrow>
             (\<exists>i. fst (ensureRoom_interleaved w between r n p (run ws db)) = Inr (Some i))"
    using ensureRoom_interleaved_succeeds [OF wf] by blast
  have c4: "\<forall>w r p. fault w = None \<longrightarrow> fault r = None \<longrightarrow>
             (\<exists>i. fst (ensureRoom w r n p (run ws db)) = Inr (Some i))"
    using c8 unfolding ensureRoom_interleaved_Nil by blast
  have c9: "\<forall>w between r p w' between' r' p' i j.
             fst (ensureRoom_interleaved w between r n p (run ws db)) = Inr (Some i) \<longrightarrow>
             fst (ensureRoom_interleaved w' between' r' n p'
                    (run ws' (snd (ensureRoom_interleaved w between r n p (run ws db)))))
               = Inr (Some j) \<longrightarrow> i = j"
  proof (intro allI impI)
    fix w between r p w' between' r' p' i j
    let ?s1 = "snd (ensureRoom_interleaved w between r n p (run ws db))"
    assume a: "fst (ensureRoom_interleaved w between r n p (run ws db)) = Inr (Some i)"
      and b: "fst (ensureRoom_interleaved w' between' r' n p' (run ws' ?s1)) = Inr (Some j)"
    have wf1: "wf_storage ?s1" using wf by (rule wf_ensureRoom_interleaved)
    have ra: "ensureRoom_get r n ?s1 = Inr (Some i)"
      using ensureRoom_interleaved_read [OF a] by simp
    have "ensureRoom_get r' n (run between' (snd (rooms_insert w' n (Some p') (run ws' ?s1))))
        = Inr (Some j)"
      using b by (rule ensureRoom_interleaved_read(2))
    then have "ensureRoom_get r' n (run (ws' @ Rooms_insert w' n (Some p') # between') ?s1)
        = Inr (Some j)"
      by (simp add: run_def)
    with wf1 ra show "i = j" by (rule ensureRoom_get_agree)
  qed
  have c3: "\<forall>w r p w' r' p' i j.
             fst (ensureRoom w r n p (run ws db)) = Inr (Some i) \<longrightarrow>
             fst (ensureRoom w' r' n p' (run ws' (snd (ensureRoom w r n p (run ws db)))))
               = Inr (Some j) \<longrightarrow> i = j"
    using c9 unfolding ensureRoom_interleaved_Nil by blast
  have c10: "\<forall>wa ra pa wb rb pb pre mid later i j.
             fst (ensureRoom_interleaved wa (pre @ Rooms_insert wb n (Some pb) # mid) ra n pa
                    (run ws db)) = Inr (Some i) \<longrightarrow>
             fst (ensureRoom_interleaved wb (mid @ later) rb n pb
                    (run pre (snd (rooms_insert wa n (Some pa) (run ws db))))) = Inr (Some j) \<longrightarrow>
             i = j"
  proof (intro allI impI)
    fix wa ra pa wb rb pb pre mid later i j
    assume "fst (ensureRoom_interleaved wa (pre @ Rooms_insert wb n (Some pb) # mid) ra n pa
                    (run ws db)) = Inr (Some i)"
      and b: "fst (ensureRoom_interleaved wb (mid @ later) rb n pb
                    (run pre (snd (rooms_insert wa n (Some pa) (run ws db))))) = Inr (Some j)"
    then have a: "fst (ensureRoom_interleaved wa (pre @ Rooms_insert wb n (Some pb) # mid @ [])
                    ra n pa (run ws db)) = Inr (Some i)"
      by simp
    show "i = j" using wf a b by (rule overlapping_calls_agree) simp
  qed
  have c11: "\<forall>wa ra pa wb rb pb pre mid later i j.
             fst (ensureRoom_interleaved wa (pre @ Rooms_insert wb n (Some pb) # mid @ later) ra n pa
                    (run ws db)) = Inr (Some i) \<longrightarrow>
             fst (ensureRoom_interleaved wb mid rb n pb
                    (run pre (snd (rooms_insert wa n (Some pa) (run ws db))))) = Inr (Some j) \<longrightarrow>
             i = j"
  proof (intro allI impI)
    fix wa ra pa wb rb pb pre mid later i j
    assume a: "fst (ensureRoom_interleaved wa (pre @ Rooms_insert wb n (Some pb) # mid @ later)
                    ra n pa (run ws db)) = Inr (Some i)"
      and "fst (ensureRoom_interleaved wb mid rb n pb
                    (run pre (snd (rooms_insert wa n (Some pa) (run ws db))))) = Inr (Some j)"
    then have b: "fst (ensureRoom_interleaved wb (mid @ []) rb n pb
                    (run pre (snd (rooms_insert wa n (Some pa) (run ws db))))) = Inr (Some j)"
      by simp
    show "i = j" using wf a b by (rule overlapping_calls_agree) simp
  qed
  from c1 c2 c3 c4 c5 c6 c7 c8 c9 c10 c11 show ?thesis by (intro conjI)
qed

text \<open>
  Witness for C1: in the example, two requests ensure the new room \<open>news\<close>, with an
  insert of the same name by a third in between; both get room 3 and one row holds the
  name. So do two requests that overlap: the second inserts while the first waits for
  its read.
\<close>

theorem ensureRoom_one_room_per_name_witness:
  "wf_storage example_storage
   \<and> fst (ensureRoom \<lparr>fault = None, now = 7\<rparr> \<lparr>fault = None, rank = (\<lambda>_. 0)\<rparr> ''news'' ''p''
            example_storage) = Inr (Some 3)
   \<and> fst (ensureRoom \<lparr>fault = None, now = 9\<rparr> \<lparr>fault = None, rank = (\<lambda>_. 0)\<rparr> ''news'' ''q''
            (run [Rooms_insert \<lparr>fault = None, now = 8\<rparr> ''news'' None]
               (snd (ensureRoom \<lparr>fault = None, now = 7\<rparr> \<lparr>fault = None, rank = (\<lambda>_. 0)\<rparr>
                       ''news'' ''p'' example_storage)))) = Inr (Some 3)
   \<and> length (filter (\<lambda>x. r_name x = ''news'')
        (rooms (run [Rooms_insert \<lparr>fault = None, now = 7\<rparr> ''news'' (Some ''p''),
                     Rooms_insert \<lparr>fault = None, now = 8\<rparr> ''news'' None,
                     Rooms_insert \<lparr>fault = None, now = 9\<rparr> ''news'' (Some ''q'')]
                  example_storage))) \<le> 1
   \<and> filter (\<lambda>x. r_name x = ''news'')
        (rooms (snd (ensureRoom \<lparr>fault = None, now = 7\<rparr> \<lparr>fault = None, rank = (\<lambda>_. 0)\<rparr>
                       ''news'' ''p'' example_storage)))
       = [\<lparr>r_id = 3, r_created_at = 7, r_name = ''news'', r_prompt = Some ''p''\<rparr>]
   \<and> fst (ensureRoom_interleaved \<lparr>fault = None, now = 7\<rparr>
            [Rooms_insert \<lparr>fault = None, now = 8\<rparr> ''news'' (Some ''q'')]
            \<lparr>fault = None, rank = (\<lambda>_. 0)\<rparr> ''news'' ''p'' example_storage) = Inr (Some 3)
   \<and> fst (ensureRoom_interleaved \<lparr>fault = None, now = 8\<rparr> []
            \<lparr>fault = None, rank = (\<lambda>_. 0)\<rparr> ''news'' ''q''
            (run [] (snd (rooms_insert \<lparr>fault = None, now = 7\<rparr> ''news'' (Some ''p'')
                            example_storage)))) = Inr (Some 3)"
proof -
  let ?r = "\<lparr>fault = None, rank = (\<lambda>_. 0)\<rparr> :: read_env"
  let ?w7 = "\<lparr>fault = None, now = 7\<rparr> :: write_env"
  let ?w8 = "\<lparr>fault = None, now = 8\<rparr> :: write_env"
  let ?w9 = "\<lparr>fault = None, now = 9\<rparr> :: write_env"
  let ?ws = "[Rooms_insert ?w7 ''news'' (Some ''p''), Rooms_insert ?w8 ''news'' None,
              Rooms_insert ?w9 ''news'' (Some ''q'')]"
  let ?row = "\<lparr>r_id = 3, r_created_at = 7, r_name = ''news'', r_prompt = Some ''p''\<rparr>"
  let ?s1 = "example_storage\<lparr>rooms_id_seq := 4, rooms := rooms example_storage @ [?row]\<rparr>"
  have run0: "run [] example_storage = example_storage" by (simp add: run_def)
  note t = ensureRoom_one_room_per_name [OF wf_example_storage]
  note t0 = t [of "''news''" "[]" "[Rooms_insert ?w8 ''news'' None]", unfolded run0]
  have one: "length (filter (\<lambda>x. r_name x = ''news'') (rooms (run ?ws example_storage))) \<le> 1"
    using t [of "''news''" ?ws] by (rule conjunct1)
  have ins: "rooms_insert ?w7 ''news'' (Some ''p'') example_storage
      = (succeeded (Some [?row]), ?s1)"
    by (simp add: rooms_insert_def Let_def example_storage_def)
  have get1: "ensureRoom_get ?r ''news'' ?s1 = Inr (Some 3)"
    by (simp add: ensureRoom_get_no_fault arrange_def example_storage_def)
  have first: "ensureRoom ?w7 ?r ''news'' ''p'' example_storage = (Inr (Some 3), ?s1)"
    using ins get1 by (simp add: ensureRoom_unfold succeeded_def)
  have fw: "fault ?w9 = None" "fault ?w8 = None" "fault ?w7 = None" and fr: "fault ?r = None"
    by simp_all
  \<comment> \<open>one call after the other\<close>
  note seq = t0 [THEN conjunct2, THEN conjunct2, THEN conjunct1, rule_format]
  note ret = t [THEN conjunct2, THEN conjunct2, THEN conjunct2, THEN conjunct1, rule_format]
  obtain j where j: "fst (ensureRoom ?w9 ?r ''news'' ''q''
      (run [Rooms_insert ?w8 ''news'' None] (snd (ensureRoom ?w7 ?r ''news'' ''p'' example_storage))))
      = Inr (Some j)"
    using ret [where n = "''news''" and p = "''q''"
                 and ws = "[Rooms_insert ?w7 ''news'' (Some ''p''), Rooms_insert ?w8 ''news'' None]",
               OF fw(1) fr]
    by (auto simp: ensureRoom_state run_def)
  have "fst (ensureRoom ?w7 ?r ''news'' ''p'' example_storage) = Inr (Some 3)"
    using first by simp
  then have "3 = j" using j by (rule seq)
  \<comment> \<open>the row of the name\<close>
  have row: "filter (\<lambda>x. r_name x = ''news'')
      (rooms (snd (ensureRoom ?w7 ?r ''news'' ''p'' example_storage))) = [?row]"
    unfolding first by (simp add: example_storage_def)
  \<comment> \<open>two calls that overlap\<close>
  note ret' = t0 [THEN conjunct2, THEN conjunct2, THEN conjunct2, THEN conjunct2, THEN conjunct2,
      THEN conjunct2, THEN conjunct2, THEN conjunct1, rule_format]
  note over = t0 [THEN conjunct2, THEN conjunct2, THEN conjunct2, THEN conjunct2, THEN conjunct2,
      THEN conjunct2, THEN conjunct2, THEN conjunct2, THEN conjunct2, THEN conjunct1, rule_format]
  have run1: "run [Rooms_insert ?w8 ''news'' (Some ''q'')] ?s1 = ?s1\<lparr>rooms_id_seq := 5\<rparr>"
    by (simp add: run_def rooms_insert_def Let_def example_storage_def)
  have get2: "ensureRoom_get ?r ''news'' (?s1\<lparr>rooms_id_seq := 5\<rparr>) = Inr (Some 3)"
    by (simp add: ensureRoom_get_no_fault arrange_def example_storage_def)
  have a: "fst (ensureRoom_interleaved ?w7 [Rooms_insert ?w8 ''news'' (Some ''q'')] ?r
      ''news'' ''p'' example_storage) = Inr (Some 3)"
    using ins run1 get2 by (simp add: ensureRoom_interleaved_unfold succeeded_def)
  obtain k where k: "fst (ensureRoom_interleaved ?w8 ([] @ []) ?r ''news'' ''q''
      (run [] (snd (rooms_insert ?w7 ''news'' (Some ''p'') example_storage)))) = Inr (Some k)"
  proof -
    have "wf_storage (run [] (snd (rooms_insert ?w7 ''news'' (Some ''p'') example_storage)))"
      by (intro wf_run wf_rooms_insert wf_example_storage)
    then show ?thesis
      using ensureRoom_interleaved_succeeds [OF _ fw(2) fr] that by blast
  qed
  have "fst (ensureRoom_interleaved ?w7 ([] @ Rooms_insert ?w8 ''news'' (Some ''q'') # []) ?r
      ''news'' ''p'' example_storage) = Inr (Some 3)"
    using a by simp
  then have "3 = k" using k by (rule over)
  with \<open>3 = j\<close> first j k one row a wf_example_storage show ?thesis by simp
qed

section \<open>getRooms\<close>

lemma last_message_at_None:
  "last_message_at db i = None \<longleftrightarrow> filter (\<lambda>m. m_room m = Some i) (messages db) = []"
  by (cases "filter (\<lambda>m. m_room m = Some i) (messages db)") (simp_all add: last_message_at_def)

lemma last_message_at_Some:
  assumes "last_message_at db i = Some t"
  shows "t = Max (set (map m_created_at (filter (\<lambda>m. m_room m = Some i) (messages db))))"
proof -
  from assms obtain u us
    where eq: "map m_created_at (filter (\<lambda>m. m_room m = Some i) (messages db)) = u # us"
      and t: "t = fold max us u"
    by (auto simp: last_message_at_def split: list.splits)
  have "Max (set (u # us)) = fold max us u" by (rule Max.set_eq_fold)
  with t show ?thesis unfolding eq by simp
qed

lemma rooms_with_activity_sorted:
  "sorted (map (\<lambda>v. desc_nulls_last (v_last_message_at v)) (rooms_with_activity rk db))"
  by (simp add: rooms_with_activity_def)

lemma rooms_with_activity_mset:
  "mset (rooms_with_activity rk db) =
   mset (map (\<lambda>x. \<lparr>v_id = r_id x, v_name = r_name x,
                    v_last_message_at = last_message_at db (r_id x)\<rparr>) (rooms db))"
  by (simp add: rooms_with_activity_def arrange_mset)

lemma rooms_with_activity_last:
  "v \<in> set (rooms_with_activity rk db) \<Longrightarrow> v_last_message_at v = last_message_at db (v_id v)"
  by (auto simp: rooms_with_activity_def arrange_set)

lemma getRooms_no_fault:
  "fault r = None \<Longrightarrow>
   getRooms r db = Inr (map (\<lambda>d. \<lparr>roomId = v_id d, name = v_name d,
                                   lastMessageAt = v_last_message_at d\<rparr>)
                          (rooms_with_activity (rank r) db))"
  by (simp add: getRooms_def rooms_with_activity_select_def succeeded_def)

lemma sorted_key_order:
  assumes "sorted (map f xs)" and "i < length xs" and "j < length xs" and "f (xs ! i) < f (xs ! j)"
  shows "i < j"
proof (rule ccontr)
  assume "\<not> i < j"
  then have "j \<le> i" by simp
  with assms(1,2) have "map f xs ! j \<le> map f xs ! i"
    by (intro sorted_nth_mono) simp_all
  with assms(2,3) have "f (xs ! j) \<le> f (xs ! i)" by simp
  with assms(4) show False by simp
qed

text \<open>
  C8. With no fault on the read, getRooms returns every room once, each with the
  timestamp of its most recent message (absent exactly when the room has no message),
  in the order of the view: a room whose latest message is at \<open>t1\<close> stands before a
  room whose latest message is at \<open>t2 < t1\<close>, and every room that has a message
  stands before every room that has none.
\<close>

theorem getRooms_most_recent_first:
  assumes "fault r = None"
  shows "\<exists>rs. getRooms r db = Inr rs
     \<and> mset (map (\<lambda>x. (roomId x, name x)) rs) = mset (map (\<lambda>x. (r_id x, r_name x)) (rooms db))
     \<and> (\<forall>x \<in> set rs.
           (lastMessageAt x = None \<longleftrightarrow>
              filter (\<lambda>m. m_room m = Some (roomId x)) (messages db) = []) \<and>
           (\<forall>t. lastMessageAt x = Some t \<longrightarrow>
              t = Max (set (map m_created_at
                    (filter (\<lambda>m. m_room m = Some (roomId x)) (messages db))))))
     \<and> (\<forall>i j t1 t2. i < length rs \<longrightarrow> j < length rs \<longrightarrow>
           lastMessageAt (rs ! i) = Some t1 \<longrightarrow> lastMessageAt (rs ! j) = Some t2 \<longrightarrow>
           t2 < t1 \<longrightarrow> i < j)
     \<and> (\<forall>i j t. i < length rs \<longrightarrow> j < length rs \<longrightarrow>
           lastMessageAt (rs ! i) = Some t \<longrightarrow> lastMessageAt (rs ! j) = None \<longrightarrow> i < j)"
proof -
  let ?vs = "rooms_with_activity (rank r) db"
  let ?conv = "\<lambda>d. \<lparr>roomId = v_id d, name = v_name d, lastMessageAt = v_last_message_at d\<rparr>"
  let ?rs = "map ?conv ?vs"
  let ?key = "\<lambda>x. desc_nulls_last (lastMessageAt x)"
  have res: "getRooms r db = Inr ?rs" using assms by (rule getRooms_no_fault)
  have sorted: "sorted (map ?key ?rs)"
    using rooms_with_activity_sorted [of "rank r" db] by (simp add: o_def)
  have "mset (map (\<lambda>x. (roomId x, name x)) ?rs) = image_mset (\<lambda>v. (v_id v, v_name v)) (mset ?vs)"
    by (simp add: o_def)
  also have "\<dots> = mset (map (\<lambda>x. (r_id x, r_name x)) (rooms db))"
    by (simp add: rooms_with_activity_mset multiset.map_comp o_def)
  finally have perm: "mset (map (\<lambda>x. (roomId x, name x)) ?rs)
      = mset (map (\<lambda>x. (r_id x, r_name x)) (rooms db))" .
  have latest: "\<forall>x \<in> set ?rs.
           (lastMessageAt x = None \<longleftrightarrow>
              filter (\<lambda>m. m_room m = Some (roomId x)) (messages db) = []) \<and>
           (\<forall>t. lastMessageAt x = Some t \<longrightarrow>
              t = Max (set (map m_created_at
                    (filter (\<lambda>m. m_room m = Some (roomId x)) (messages db)))))"
  proof
    fix x assume "x \<in> set ?rs"
    then obtain v where v: "v \<in> set ?vs" and x: "x = ?conv v" by auto
    have l: "lastMessageAt x = last_message_at db (roomId x)"
      using rooms_with_activity_last [OF v] x by simp
    show "(lastMessageAt x = None \<longleftrightarrow>
              filter (\<lambda>m. m_room m = Some (roomId x)) (messages db) = []) \<and>
           (\<forall>t. lastMessageAt x = Some t \<longrightarrow>
              t = Max (set (map m_created_at
                    (filter (\<lambda>m. m_room m = Some (roomId x)) (messages db)))))"
      unfolding l by (auto simp: last_message_at_None dest: last_message_at_Some)
  qed
  have recent: "\<forall>i j t1 t2. i < length ?rs \<longrightarrow> j < length ?rs \<longrightarrow>
           lastMessageAt (?rs ! i) = Some t1 \<longrightarrow> lastMessageAt (?rs ! j) = Some t2 \<longrightarrow>
           t2 < t1 \<longrightarrow> i < j"
  proof (intro allI impI)
    fix i j t1 t2
    assume i: "i < length ?rs" and j: "j < length ?rs"
      and a: "lastMessageAt (?rs ! i) = Some t1" and b: "lastMessageAt (?rs ! j) = Some t2"
      and lt: "t2 < t1"
    have "?key (?rs ! i) < ?key (?rs ! j)" using a b lt by (simp add: desc_nulls_last_def)
    with sorted i j show "i < j" by (rule sorted_key_order)
  qed
  have nulls: "\<forall>i j t. i < length ?rs \<longrightarrow> j < length ?rs \<longrightarrow>
           lastMessageAt (?rs ! i) = Some t \<longrightarrow> lastMessageAt (?rs ! j) = None \<longrightarrow> i < j"
  proof (intro allI impI)
    fix i j t
    assume i: "i < length ?rs" and j: "j < length ?rs"
      and a: "lastMessageAt (?rs ! i) = Some t" and b: "lastMessageAt (?rs ! j) = None"
    have "?key (?rs ! i) < ?key (?rs ! j)" using a b by (simp add: desc_nulls_last_def)
    with sorted i j show "i < j" by (rule sorted_key_order)
  qed
  from res perm latest recent nulls show ?thesis by blast
qed

lemma getRooms_example:
  "getRooms \<lparr>fault = None, rank = (\<lambda>_. 0)\<rparr> example_storage =
     Inr [\<lparr>roomId = 1, name = ''general'', lastMessageAt = Some 5\<rparr>,
          \<lparr>roomId = 0, name = ''Lobby'', lastMessageAt = Some 4\<rparr>,
          \<lparr>roomId = 2, name = ''quiet'', lastMessageAt = None\<rparr>]"
  by (simp add: getRooms_def rooms_with_activity_select_def rooms_with_activity_def arrange_def
        last_message_at_def desc_nulls_last_def succeeded_def example_storage_def)

text \<open>
  Witness for C8: in the example \<open>general\<close> (latest message at 5) comes before the
  Lobby (at 4), and \<open>quiet\<close>, with no message, comes last.
\<close>

theorem getRooms_most_recent_first_witness:
  "getRooms \<lparr>fault = None, rank = (\<lambda>_. 0)\<rparr> example_storage =
     Inr [\<lparr>roomId = 1, name = ''general'', lastMessageAt = Some 5\<rparr>,
          \<lparr>roomId = 0, name = ''Lobby'', lastMessageAt = Some 4\<rparr>,
          \<lparr>roomId = 2, name = ''quiet'', lastMessageAt = None\<rparr>]
   \<and> (\<exists>rs. getRooms \<lparr>fault = None, rank = (\<lambda>_. 0)\<rparr> example_storage = Inr rs
         \<and> length rs = 3
         \<and> lastMessageAt (rs ! 0) = Some 5 \<and> lastMessageAt (rs ! 1) = Some 4
         \<and> lastMessageAt (rs ! 2) = None)"
proof -
  let ?r = "\<lparr>fault = None, rank = (\<lambda>_. 0)\<rparr> :: read_env"
  have f: "fault ?r = None" by simp
  from getRooms_most_recent_first [OF f, of example_storage]
  obtain rs where rs: "getRooms ?r example_storage = Inr rs" by blast
  with getRooms_example have "rs = [\<lparr>roomId = 1, name = ''general'', lastMessageAt = Some 5\<rparr>,
          \<lparr>roomId = 0, name = ''Lobby'', lastMessageAt = Some 4\<rparr>,
          \<lparr>roomId = 2, name = ''quiet'', lastMessageAt = None\<rparr>]" by simp
  with rs show ?thesis by simp
qed

section \<open>getRoomMessages\<close>

lemma find_id_Some:
  "i \<in> set (map u_id xs) \<Longrightarrow> \<exists>u. find (\<lambda>u. u_id u = i) xs = Some u"
  by (cases "find (\<lambda>u. u_id u = i) xs") (auto simp: find_None_iff)

lemma to_MessageView_embed:
  assumes "m_from m = Some i" and "i \<in> set (map u_id (users db))"
  shows "to_MessageView (embed_from db m) = Inr (MessageView_of db m)"
proof -
  obtain u where "find (\<lambda>u. u_id u = i) (users db) = Some u"
    using find_id_Some [OF assms(2)] by blast
  then show ?thesis
    using assms(1) by (simp add: to_MessageView_def embed_from_def MessageView_of_def author_def)
qed

lemma map_throwing_map:
  "map_throwing f (map g xs) = map_throwing (\<lambda>x. f (g x)) xs"
  by (induction xs) (simp_all split: sum.splits)

lemma map_throwing_all:
  "(\<And>x. x \<in> set xs \<Longrightarrow> f x = Inr (g x)) \<Longrightarrow> map_throwing f xs = Inr (map g xs)"
  by (induction xs) simp_all

lemma wf_message_author:
  assumes "wf_storage db" and "m \<in> set (messages db)"
  shows "\<exists>i. m_from m = Some i \<and> i \<in> set (map u_id (users db))"
proof -
  from assms have "m_from m \<noteq> None" by (auto simp: wf_storage_def list_all_iff)
  then obtain i where i: "m_from m = Some i" by auto
  with assms(2) have "i \<in> set (List.map_filter m_from (messages db))"
    by (auto simp: mem_map_filter)
  with assms(1) have "i \<in> set (map u_id (users db))" by (auto simp: wf_storage_def)
  with i show ?thesis by blast
qed

lemma getRoomMessages_no_fault:
  assumes "wf_storage db" and "fault r = None" and "int4 i"
  shows "getRoomMessages r i db =
           Inr (map (MessageView_of db)
                  (arrange (rank r) m_id (filter (\<lambda>m. m_room m = Some i) (messages db))))"
proof -
  let ?ms = "arrange (rank r) m_id (filter (\<lambda>m. m_room m = Some i) (messages db))"
  have "map_throwing to_MessageView (map (embed_from db) ?ms)
      = map_throwing (\<lambda>m. to_MessageView (embed_from db m)) ?ms"
    by (rule map_throwing_map)
  also have "\<dots> = Inr (map (MessageView_of db) ?ms)"
  proof (rule map_throwing_all)
    fix m assume "m \<in> set ?ms"
    then have "m \<in> set (messages db)" by (simp add: arrange_set)
    then obtain u where "m_from m = Some u" "u \<in> set (map u_id (users db))"
      using wf_message_author [OF assms(1)] by blast
    then show "to_MessageView (embed_from db m) = Inr (MessageView_of db m)"
      by (rule to_MessageView_embed)
  qed
  finally show ?thesis
    using assms(2,3) by (simp add: getRoomMessages_def messages_select_eq_room_def succeeded_def)
qed

lemma MessageView_of_author:
  assumes "wf_storage db" and "m \<in> set (messages db)"
  shows "\<exists>u\<in>set (users db). m_from m = Some (u_id u) \<and>
           MessageView_of db m =
             \<lparr>mv_message = m_message m,
              mv_from = \<lparr>from_name = u_username u, from_avatarUrl = u_avatar_url u\<rparr>,
              createdAt = m_created_at m\<rparr>"
proof -
  obtain i where i: "m_from m = Some i" "i \<in> set (map u_id (users db))"
    using wf_message_author [OF assms] by blast
  obtain u where u: "find (\<lambda>u. u_id u = i) (users db) = Some u"
    using find_id_Some [OF i(2)] by blast
  then have "u \<in> set (users db)" and "u_id u = i"
    by (auto simp: find_Some_iff in_set_conv_nth)
  moreover have "MessageView_of db m =
      \<lparr>mv_message = m_message m,
       mv_from = \<lparr>from_name = u_username u, from_avatarUrl = u_avatar_url u\<rparr>,
       createdAt = m_created_at m\<rparr>"
    using i(1) u by (simp add: MessageView_of_def author_def)
  ultimately show ?thesis using i(1) by blast
qed

lemma MessageView_of_users:
  "users db' = users db \<Longrightarrow> MessageView_of db' = MessageView_of db"
  by (auto simp: MessageView_of_def author_def fun_eq_iff split: option.splits)

lemma insertMessage_messages:
  assumes "wf_storage db"
  shows "messages (snd (insertMessage w txt i u db)) =
           messages db @
             (if fault w = None \<and> u \<in> set (map u_id (users db)) \<and> i \<in> set (map r_id (rooms db))
              then [\<lparr>m_id = messages_id_seq db, m_created_at = now w, m_message = Some txt,
                     m_from = Some u, m_room = Some i\<rparr>]
              else [])"
proof -
  have "list_all (\<lambda>m. m_id m < messages_id_seq db) (messages db)"
    using assms by (simp add: wf_storage_def)
  then have "messages_id_seq db \<notin> set (map m_id (messages db))"
    by (auto simp: list_all_iff)
  then show ?thesis
    by (simp add: insertMessage_def messages_insert_def Let_def case_prod_beta
          split: option.splits)
qed

lemma insertMessage_frame:
  "users (snd (insertMessage w txt i u db)) = users db"
  "rooms (snd (insertMessage w txt i u db)) = rooms db"
  by (simp_all add: insertMessage_def case_prod_beta)

lemma wf_insertMessage: "wf_storage db \<Longrightarrow> wf_storage (snd (insertMessage w txt i u db))"
  by (simp add: insertMessage_def case_prod_beta wf_messages_insert)

lemma insertMessages_rows:
  assumes "wf_storage db" and "i \<in> set (map r_id (rooms db))"
  shows "\<exists>rows. messages (insertMessages calls i db) = messages db @ rows
           \<and> list_all (\<lambda>m. m_room m = Some i) rows
           \<and> map (\<lambda>m. (m_message m, m_from m, m_room m, m_created_at m)) rows =
               map (\<lambda>(w, txt, u). (Some txt, Some u, Some i, now w))
                 (filter (\<lambda>(w, txt, u). fault w = None \<and> u \<in> set (map u_id (users db))) calls)
           \<and> map (MessageView_of db) rows =
               map (\<lambda>(w, txt, u). \<lparr>mv_message = Some txt, mv_from = author db u,
                                    createdAt = now w\<rparr>)
                 (filter (\<lambda>(w, txt, u). fault w = None \<and> u \<in> set (map u_id (users db))) calls)
           \<and> users (insertMessages calls i db) = users db
           \<and> wf_storage (insertMessages calls i db)"
  using assms
proof (induction calls arbitrary: db)
  case Nil
  then show ?case by simp
next
  case (Cons c calls)
  obtain w tx u where c: "c = (w, tx, u)" by (cases c)
  let ?db1 = "snd (insertMessage w tx i u db)"
  let ?row = "\<lparr>m_id = messages_id_seq db, m_created_at = now w, m_message = Some tx,
               m_from = Some u, m_room = Some i\<rparr>"
  let ?acc = "fault w = None \<and> u \<in> set (map u_id (users db))"
  let ?first = "if ?acc then [?row] else []"
  have wf1: "wf_storage ?db1" using Cons.prems(1) by (rule wf_insertMessage)
  have u1: "users ?db1 = users db" and r1: "rooms ?db1 = rooms db"
    by (rule insertMessage_frame)+
  have m1: "messages ?db1 = messages db @ ?first"
    using insertMessage_messages [OF Cons.prems(1), of w tx i u] Cons.prems(2) by simp
  have v1: "MessageView_of ?db1 = MessageView_of db" using u1 by (rule MessageView_of_users)
  have a1: "author ?db1 = author db" using u1 by (simp add: author_def fun_eq_iff)
  from Cons.IH [OF wf1] Cons.prems(2) r1
  obtain rows where rows: "messages (insertMessages calls i ?db1) = messages ?db1 @ rows"
    "list_all (\<lambda>m. m_room m = Some i) rows"
    "map (\<lambda>m. (m_message m, m_from m, m_room m, m_created_at m)) rows =
       map (\<lambda>(w, txt, u). (Some txt, Some u, Some i, now w))
         (filter (\<lambda>(w, txt, u). fault w = None \<and> u \<in> set (map u_id (users ?db1))) calls)"
    "map (MessageView_of ?db1) rows =
       map (\<lambda>(w, txt, u). \<lparr>mv_message = Some txt, mv_from = author ?db1 u, createdAt = now w\<rparr>)
         (filter (\<lambda>(w, txt, u). fault w = None \<and> u \<in> set (map u_id (users ?db1))) calls)"
    "users (insertMessages calls i ?db1) = users ?db1"
    "wf_storage (insertMessages calls i ?db1)"
    by auto
  have "messages (insertMessages (c # calls) i db) = messages db @ (?first @ rows)"
    using rows(1) m1 c by simp
  moreover have "list_all (\<lambda>m. m_room m = Some i) (?first @ rows)"
    using rows(2) by simp
  moreover have "map (\<lambda>m. (m_message m, m_from m, m_room m, m_created_at m)) (?first @ rows) =
      map (\<lambda>(w, txt, u). (Some txt, Some u, Some i, now w))
        (filter (\<lambda>(w, txt, u). fault w = None \<and> u \<in> set (map u_id (users db))) (c # calls))"
    using rows(3) unfolding u1 c by simp
  moreover have "map (MessageView_of db) (?first @ rows) =
      map (\<lambda>(w, txt, u). \<lparr>mv_message = Some txt, mv_from = author db u, createdAt = now w\<rparr>)
        (filter (\<lambda>(w, txt, u). fault w = None \<and> u \<in> set (map u_id (users db))) (c # calls))"
    using rows(4) unfolding v1 a1 u1 c by (simp add: MessageView_of_def)
  moreover have "users (insertMessages (c # calls) i db) = users db"
    using rows(5) u1 c by simp
  moreover have "wf_storage (insertMessages (c # calls) i db)"
    using rows(6) c by simp
  ultimately show ?case by blast
qed

lemma sorted_append_filter:
  assumes "sorted (xs @ map f ys)"
  shows "sorted (xs @ map f (filter P ys))"
proof -
  from assms have "sorted xs" and "sorted (map f ys)"
    and le: "\<forall>x\<in>set xs. \<forall>y\<in>set (map f ys). x \<le> y"
    by (simp_all add: sorted_append)
  from \<open>sorted (map f ys)\<close> have "sorted (map f (filter P ys))" by (rule sorted_filter)
  moreover from le have "\<forall>x\<in>set xs. \<forall>y\<in>set (map f (filter P ys)). x \<le> y" by auto
  ultimately show ?thesis using \<open>sorted xs\<close> by (simp add: sorted_append)
qed

text \<open>
  C3, amended. On storage that meets the constraints and where every message names an
  author that exists (as every message written by insertMessage does), with no fault
  on the read, for a room that exists and any sequence of insertMessage calls targeting
  it: the calls append to \<open>messages\<close> exactly one row for each call that storage
  accepted (no fault, an author that exists), with the text, author and room of the call
  and the timestamp storage gave it, and change no user. getRoomMessages, before and
  after the calls, returns exactly the rows of \<open>messages\<close> of that room, each once,
  each with its text, its timestamp and the name and avatarUrl of the user its \<open>from\<close>
  points to: after the calls, the messages the room had together with those appended.
  Their order is the order in which storage returns the rows, since the query asks for
  none: when storage returns rows in table order the new messages follow the old ones
  in call order, and then the result is in non-decreasing createdAt order whenever the
  timestamps given to the calls do not decrease.
\<close>

theorem getRoomMessages_inserted:
  assumes "wf_storage db" and "fault r = None" and "int4 i"
    and "i \<in> set (map r_id (rooms db))"
  shows "\<exists>rows old new.
           messages (insertMessages calls i db) = messages db @ rows
         \<and> users (insertMessages calls i db) = users db
         \<and> map (\<lambda>m. (m_message m, m_from m, m_room m, m_created_at m)) rows =
             map (\<lambda>(w, txt, u). (Some txt, Some u, Some i, now w))
               (filter (\<lambda>(w, txt, u). fault w = None \<and> u \<in> set (map u_id (users db))) calls)
         \<and> old = map (MessageView_of db)
                   (arrange (rank r) m_id (filter (\<lambda>m. m_room m = Some i) (messages db)))
         \<and> new = map (MessageView_of db)
                   (arrange (rank r) m_id
                      (filter (\<lambda>m. m_room m = Some i) (messages db) @ rows))
         \<and> (\<forall>m \<in> set (messages db) \<union> set rows.
               \<exists>u \<in> set (users db). m_from m = Some (u_id u) \<and>
                 MessageView_of db m =
                   \<lparr>mv_message = m_message m,
                    mv_from = \<lparr>from_name = u_username u, from_avatarUrl = u_avatar_url u\<rparr>,
                    createdAt = m_created_at m\<rparr>)
         \<and> getRoomMessages r i db = Inr old
         \<and> getRoomMessages r i (insertMessages calls i db) = Inr new
         \<and> mset new = mset old +
             mset (map (\<lambda>(w, txt, u). \<lparr>mv_message = Some txt, mv_from = author db u,
                                        createdAt = now w\<rparr>)
                    (filter (\<lambda>(w, txt, u). fault w = None \<and> u \<in> set (map u_id (users db)))
                       calls))
         \<and> (rank r = (\<lambda>_. 0) \<longrightarrow>
              new = old @
                map (\<lambda>(w, txt, u). \<lparr>mv_message = Some txt, mv_from = author db u,
                                     createdAt = now w\<rparr>)
                  (filter (\<lambda>(w, txt, u). fault w = None \<and> u \<in> set (map u_id (users db)))
                     calls))
         \<and> (rank r = (\<lambda>_. 0) \<longrightarrow>
              sorted (map createdAt old @ map (\<lambda>(w, txt, u). now w) calls) \<longrightarrow>
              sorted (map createdAt new))"
proof -
  let ?db' = "insertMessages calls i db"
  let ?P = "\<lambda>m. m_room m = Some i"
  let ?acc = "\<lambda>(w, txt, u). fault w = None \<and> u \<in> set (map u_id (users db))"
  let ?view = "\<lambda>(w, txt, u). \<lparr>mv_message = Some txt, mv_from = author db u, createdAt = now w\<rparr>"
  let ?old = "map (MessageView_of db) (arrange (rank r) m_id (filter ?P (messages db)))"
  obtain rows where rows: "messages ?db' = messages db @ rows"
    "list_all ?P rows"
    "map (\<lambda>m. (m_message m, m_from m, m_room m, m_created_at m)) rows =
       map (\<lambda>(w, txt, u). (Some txt, Some u, Some i, now w)) (filter ?acc calls)"
    "map (MessageView_of db) rows = map ?view (filter ?acc calls)"
    "users ?db' = users db" "wf_storage ?db'"
    using insertMessages_rows [OF assms(1,4), of calls] by blast
  let ?new = "map (MessageView_of db) (arrange (rank r) m_id (filter ?P (messages db) @ rows))"
  have fil: "filter ?P (messages ?db') = filter ?P (messages db) @ rows"
    using rows(1,2) by (simp add: list_all_iff)
  have old: "getRoomMessages r i db = Inr ?old"
    using assms(1,2,3) by (rule getRoomMessages_no_fault)
  have "getRoomMessages r i ?db' =
      Inr (map (MessageView_of ?db') (arrange (rank r) m_id (filter ?P (messages ?db'))))"
    using rows(6) assms(2,3) by (rule getRoomMessages_no_fault)
  then have new: "getRoomMessages r i ?db' = Inr ?new"
    by (simp only: MessageView_of_users [OF rows(5)] fil)
  have authors: "\<forall>m \<in> set (messages db) \<union> set rows.
      \<exists>u \<in> set (users db). m_from m = Some (u_id u) \<and>
        MessageView_of db m =
          \<lparr>mv_message = m_message m,
           mv_from = \<lparr>from_name = u_username u, from_avatarUrl = u_avatar_url u\<rparr>,
           createdAt = m_created_at m\<rparr>"
  proof
    fix m assume "m \<in> set (messages db) \<union> set rows"
    then have "m \<in> set (messages ?db')" using rows(1) by simp
    from MessageView_of_author [OF rows(6) this]
    show "\<exists>u \<in> set (users db). m_from m = Some (u_id u) \<and>
        MessageView_of db m =
          \<lparr>mv_message = m_message m,
           mv_from = \<lparr>from_name = u_username u, from_avatarUrl = u_avatar_url u\<rparr>,
           createdAt = m_created_at m\<rparr>"
      by (simp only: MessageView_of_users [OF rows(5)] rows(5))
  qed
  have "mset ?new = image_mset (MessageView_of db) (mset (filter ?P (messages db)) + mset rows)"
    by (simp add: arrange_mset)
  also have "\<dots> = mset ?old + mset (map (MessageView_of db) rows)"
    by (simp add: arrange_mset)
  finally have perm: "mset ?new = mset ?old + mset (map ?view (filter ?acc calls))"
    by (simp only: rows(4))
  have tab: "rank r = (\<lambda>_. 0) \<longrightarrow> ?new = ?old @ map ?view (filter ?acc calls)"
  proof
    assume c: "rank r = (\<lambda>_. 0)"
    have "?new = map (MessageView_of db) (filter ?P (messages db)) @ map (MessageView_of db) rows"
      unfolding c by (simp add: arrange_const)
    then show "?new = ?old @ map ?view (filter ?acc calls)"
      unfolding c by (simp add: arrange_const rows(4))
  qed
  have srt: "rank r = (\<lambda>_. 0) \<longrightarrow>
      sorted (map createdAt ?old @ map (\<lambda>(w, txt, u). now w) calls) \<longrightarrow>
      sorted (map createdAt ?new)"
  proof (intro impI)
    assume c: "rank r = (\<lambda>_. 0)"
      and s: "sorted (map createdAt ?old @ map (\<lambda>(w, txt, u). now w) calls)"
    have "map createdAt (map ?view (filter ?acc calls))
        = map (\<lambda>(w, txt, u). now w) (filter ?acc calls)"
      by (simp add: case_prod_beta o_def)
    with tab c have "map createdAt ?new
        = map createdAt ?old @ map (\<lambda>(w, txt, u). now w) (filter ?acc calls)"
      by simp
    moreover have "sorted (map createdAt ?old @ map (\<lambda>(w, txt, u). now w) (filter ?acc calls))"
      using s by (rule sorted_append_filter)
    ultimately show "sorted (map createdAt ?new)" by simp
  qed
  from rows(1,5,3) authors old new perm tab srt show ?thesis by blast
qed

lemma insertMessages_example:
  "insertMessages [(\<lparr>fault = None, now = 7\<rparr>, ''x'', 1), (\<lparr>fault = None, now = 8\<rparr>, ''y'', 2)] 2
     example_storage
   = example_storage\<lparr>messages_id_seq := 6,
       messages := messages example_storage @
         [\<lparr>m_id = 4, m_created_at = 7, m_message = Some ''x'', m_from = Some 1, m_room = Some 2\<rparr>,
          \<lparr>m_id = 5, m_created_at = 8, m_message = Some ''y'', m_from = Some 2, m_room = Some 2\<rparr>]\<rparr>"
  by (simp add: insertMessage_def messages_insert_def succeeded_def Let_def example_storage_def)

text \<open>
  C3, as stated, fails: two messages inserted into the empty room 2 of the example, at
  times 7 and 8, come back in the order 8, 7 when storage returns the later row first.
\<close>

theorem getRoomMessages_order_counterexample:
  "getRoomMessages \<lparr>fault = None, rank = (\<lambda>i. if i = 4 then 1 else 0)\<rparr> 2
     (insertMessages [(\<lparr>fault = None, now = 7\<rparr>, ''x'', 1), (\<lparr>fault = None, now = 8\<rparr>, ''y'', 2)] 2
        example_storage)
   = Inr [\<lparr>mv_message = Some ''y'',
           mv_from = \<lparr>from_name = Some ''bob'', from_avatarUrl = Some ''bob.png''\<rparr>,
           createdAt = 8\<rparr>,
          \<lparr>mv_message = Some ''x'',
           mv_from = \<lparr>from_name = Some ''ann'', from_avatarUrl = Some ''ann.png''\<rparr>,
           createdAt = 7\<rparr>]"
  unfolding insertMessages_example
  by (simp add: getRoomMessages_def messages_select_eq_room_def succeeded_def arrange_def
        embed_from_def to_MessageView_def int4_def example_storage_def)

text \<open>
  Witness for C3, amended: the same two calls, read back in table order.
\<close>

theorem getRoomMessages_inserted_witness:
  "wf_storage example_storage
   \<and> int4 2
   \<and> 2 \<in> set (map r_id (rooms example_storage))
   \<and> getRoomMessages \<lparr>fault = None, rank = (\<lambda>_. 0)\<rparr> 2 example_storage = Inr []
   \<and> getRoomMessages \<lparr>fault = None, rank = (\<lambda>_. 0)\<rparr> 2
       (insertMessages [(\<lparr>fault = None, now = 7\<rparr>, ''x'', 1), (\<lparr>fault = None, now = 8\<rparr>, ''y'', 2)] 2
          example_storage)
     = Inr [\<lparr>mv_message = Some ''x'',
             mv_from = \<lparr>from_name = Some ''ann'', from_avatarUrl = Some ''ann.png''\<rparr>,
             createdAt = 7\<rparr>,
            \<lparr>mv_message = Some ''y'',
             mv_from = \<lparr>from_name = Some ''bob'', from_avatarUrl = Some ''bob.png''\<rparr>,
             createdAt = 8\<rparr>]"
proof -
  let ?r = "\<lparr>fault = None, rank = (\<lambda>_. 0)\<rparr> :: read_env"
  let ?calls = "[(\<lparr>fault = None, now = 7\<rparr> :: write_env, ''x'', 1 :: int),
                 (\<lparr>fault = None, now = 8\<rparr>, ''y'', 2)]"
  have f: "fault ?r = None" by simp
  have room: "2 \<in> set (map r_id (rooms example_storage))" by (simp add: example_storage_def)
  have empty: "getRoomMessages ?r 2 example_storage = Inr []"
    by (simp add: getRoomMessages_def messages_select_eq_room_def succeeded_def arrange_def
          int4_def example_storage_def)
  have range: "int4 2" by (simp add: int4_def)
  from getRoomMessages_inserted [OF wf_example_storage f range room, of ?calls]
  obtain old new where old: "getRoomMessages ?r 2 example_storage = Inr old"
    and new: "getRoomMessages ?r 2 (insertMessages ?calls 2 example_storage) = Inr new"
    and tab: "new = old @
        map (\<lambda>(w, tx, u). \<lparr>mv_message = Some tx, mv_from = author example_storage u,
                            createdAt = now w\<rparr>)
          (filter (\<lambda>(w, tx, u). fault w = None \<and> u \<in> set (map u_id (users example_storage)))
             ?calls)"
    by auto
  from old empty have "old = []" by simp
  with tab have "new = [\<lparr>mv_message = Some ''x'',
             mv_from = \<lparr>from_name = Some ''ann'', from_avatarUrl = Some ''ann.png''\<rparr>,
             createdAt = 7\<rparr>,
            \<lparr>mv_message = Some ''y'',
             mv_from = \<lparr>from_name = Some ''bob'', from_avatarUrl = Some ''bob.png''\<rparr>,
             createdAt = 8\<rparr>]"
    by (simp add: author_def example_storage_def)
  with new empty room range wf_example_storage show ?thesis by simp
qed

end
